theory Spec2Isabelle
  imports Complex_Main "HOL-Library.Word" "HOL-Library.Sublist"
begin

section \<open>Strings\<close>

text \<open>
  A Go string is a sequence of bytes, here a \<open>char list\<close>, and a rune is an \<open>int\<close>.
  \<open>main.go\<close> calls \<open>ToLower\<close>, \<open>Fields\<close>, \<open>Contains\<close>, \<open>HasPrefix\<close> and \<open>Join\<close> of
  package \<open>strings\<close>. The first two work on runes: they decode the bytes as UTF-8, as a
  \<open>range\<close> loop does, and ask package \<open>unicode\<close> about each rune. They are modelled
  as the library has them, with its two paths: the path for strings of ASCII bytes only,
  and the path through \<open>strings.Map\<close> and \<open>strings.FieldsFunc\<close> for the others.
\<close>

subsection \<open>UTF-8\<close>

text \<open>
  \<open>utf8.DecodeRuneInString\<close>: the rune at the head of a string and its width in bytes.
  A byte that does not start a well-formed sequence (a stray continuation byte, an
  overlong form, a surrogate, a value above \<open>U+10FFFF\<close>, a sequence cut short) decodes to
  \<open>RuneError\<close> with width 1.
\<close>

definition RuneError :: int where
  "RuneError = 0xFFFD"

definition is_cont :: "char \<Rightarrow> bool" where
  "is_cont c = (0x80 \<le> (of_char c :: int) \<and> (of_char c :: int) \<le> 0xBF)"

text \<open>The range of the second byte, which depends on the first.\<close>

definition second_ok :: "int \<Rightarrow> char \<Rightarrow> bool" where
  "second_ok b0 c1 =
     (let b1 = (of_char c1 :: int) in
      if b0 = 0xE0 then 0xA0 \<le> b1 \<and> b1 \<le> 0xBF
      else if b0 = 0xED then 0x80 \<le> b1 \<and> b1 \<le> 0x9F
      else if b0 = 0xF0 then 0x90 \<le> b1 \<and> b1 \<le> 0xBF
      else if b0 = 0xF4 then 0x80 \<le> b1 \<and> b1 \<le> 0x8F
      else 0x80 \<le> b1 \<and> b1 \<le> 0xBF)"

definition DecodeRune :: "string \<Rightarrow> int \<times> nat" where
  "DecodeRune s =
     (case s of
        [] \<Rightarrow> (RuneError, 0)
      | c0 # rest \<Rightarrow>
          (let b0 = (of_char c0 :: int) in
           if b0 < 0x80 then (b0, 1)
           else if 0xC2 \<le> b0 \<and> b0 \<le> 0xDF then
             (case rest of
                c1 # _ \<Rightarrow>
                  if is_cont c1 then ((b0 mod 32) * 64 + of_char c1 mod 64, 2)
                  else (RuneError, 1)
              | _ \<Rightarrow> (RuneError, 1))
           else if 0xE0 \<le> b0 \<and> b0 \<le> 0xEF then
             (case rest of
                c1 # c2 # _ \<Rightarrow>
                  if second_ok b0 c1 \<and> is_cont c2
                  then ((b0 mod 16) * 4096 + (of_char c1 mod 64) * 64 + of_char c2 mod 64, 3)
                  else (RuneError, 1)
              | _ \<Rightarrow> (RuneError, 1))
           else if 0xF0 \<le> b0 \<and> b0 \<le> 0xF4 then
             (case rest of
                c1 # c2 # c3 # _ \<Rightarrow>
                  if second_ok b0 c1 \<and> is_cont c2 \<and> is_cont c3
                  then ((b0 mod 8) * 262144 + (of_char c1 mod 64) * 4096
                          + (of_char c2 mod 64) * 64 + of_char c3 mod 64, 4)
                  else (RuneError, 1)
              | _ \<Rightarrow> (RuneError, 1))
           else (RuneError, 1)))"

text \<open>
  A \<open>range\<close> loop over a string: the runes in order, each with the bytes it was decoded
  from. The width of a rune at the head of a non-empty string is at least 1, so the bytes
  are the head and the \<open>width - 1\<close> bytes after it.
\<close>

fun runes_of :: "string \<Rightarrow> (int \<times> string) list" where
  "runes_of [] = []"
| "runes_of (c # cs) =
     (case DecodeRune (c # cs) of
        (r, width) \<Rightarrow> (r, c # take (width - 1) cs) # runes_of (drop (width - 1) cs))"

text \<open>
  \<open>utf8.AppendRune\<close>, which \<open>strings.Builder.WriteRune\<close> calls: a rune that is no
  Unicode scalar value is written as \<open>RuneError\<close>.
\<close>

definition EncodeRune :: "int \<Rightarrow> string" where
  "EncodeRune r =
     (if 0 \<le> r \<and> r \<le> 0x7F then [char_of r]
      else if 0 \<le> r \<and> r \<le> 0x7FF then [char_of (0xC0 + r div 64), char_of (0x80 + r mod 64)]
      else if r < 0 \<or> r > 0x10FFFF \<or> (0xD800 \<le> r \<and> r \<le> 0xDFFF)
      then [CHR 0xEF, CHR 0xBF, CHR 0xBD]
      else if r \<le> 0xFFFF then
        [char_of (0xE0 + r div 4096), char_of (0x80 + (r div 64) mod 64),
         char_of (0x80 + r mod 64)]
      else
        [char_of (0xF0 + r div 262144), char_of (0x80 + (r div 4096) mod 64),
         char_of (0x80 + (r div 64) mod 64), char_of (0x80 + r mod 64)])"

text \<open>
  \<open>strings.Map\<close>: every rune of the string is replaced by its image, and dropped when
  the image is negative.
\<close>

definition Map :: "(int \<Rightarrow> int) \<Rightarrow> string \<Rightarrow> string" where
  "Map mapping s =
     concat (map (\<lambda>(r, bytes). if mapping r < 0 then [] else EncodeRune (mapping r))
               (runes_of s))"

subsection \<open>Package unicode\<close>

text \<open>
  \<open>unicode.ToLower\<close> and \<open>unicode.IsSpace\<close> decide the ASCII runes, and for
  \<open>IsSpace\<close> the Latin-1 runes, in their own code, and look every other rune up in the
  tables \<open>CaseRanges\<close> and \<open>White_Space\<close>. The tables are data of the Go distribution
  and are parameters here: \<open>lower_of\<close> is the lower case that \<open>CaseRanges\<close> gives a rune
  above \<open>U+007F\<close>, and \<open>White_Space\<close> says which runes above \<open>U+00FF\<close> are white space.
  Every statement below holds for all tables.
\<close>

record unicode_tables =
  lower_of :: "int \<Rightarrow> int"
  White_Space :: "int \<Rightarrow> bool"

definition unicode_ToLower :: "unicode_tables \<Rightarrow> int \<Rightarrow> int" where
  "unicode_ToLower U r =
     (if r \<le> 0x7F then (if 0x41 \<le> r \<and> r \<le> 0x5A then r + 0x20 else r)
      else lower_of U r)"

definition unicode_IsSpace :: "unicode_tables \<Rightarrow> int \<Rightarrow> bool" where
  "unicode_IsSpace U r =
     (if 0 \<le> r \<and> r \<le> 0xFF
      then r \<in> set [0x09, 0x0A, 0x0B, 0x0C, 0x0D, 0x20, 0x85, 0xA0]
      else White_Space U r)"

subsection \<open>Package strings\<close>

text \<open>
  \<open>strings.ToLower\<close>: a string of ASCII bytes is lowered byte by byte, \<open>A\<close> .. \<open>Z\<close> to
  \<open>a\<close> .. \<open>z\<close>; any other string goes through \<open>Map\<close> with \<open>unicode.ToLower\<close>.
\<close>

definition isASCII :: "string \<Rightarrow> bool" where
  "isASCII s = list_all (\<lambda>c. (of_char c :: int) < 0x80) s"

definition toLower_byte :: "char \<Rightarrow> char" where
  "toLower_byte c =
     (if 65 \<le> (of_char c :: nat) \<and> (of_char c :: nat) \<le> 90
      then char_of ((of_char c :: nat) + 32) else c)"

definition ToLower :: "unicode_tables \<Rightarrow> string \<Rightarrow> string" where
  "ToLower U s = (if isASCII s then map toLower_byte s else Map (unicode_ToLower U) s)"

definition Contains :: "string \<Rightarrow> string \<Rightarrow> bool" where
  "Contains s substr = sublist substr s"

definition HasPrefix :: "string \<Rightarrow> string \<Rightarrow> bool" where
  "HasPrefix s pre = prefix pre s"

text \<open>
  \<open>strings.Fields\<close>: the maximal runs without white space, in order. In a string of
  ASCII bytes the white space is the bytes of the table \<open>asciiSpace\<close> (\<open>isSpace\<close>
  here): tab, line feed, vertical tab, form feed, carriage return and space.
  \<open>fields_from cur s\<close> scans \<open>s\<close> with the field read so far in \<open>cur\<close>. Any other string
  goes through \<open>FieldsFunc\<close> with \<open>unicode.IsSpace\<close>, which scans the runes and cuts the
  bytes where a rune is white space (\<open>fields_runes\<close>).
\<close>

definition isSpace :: "char \<Rightarrow> bool" where
  "isSpace c = (c \<in> set [CHR 0x09, CHR 0x0A, CHR 0x0B, CHR 0x0C, CHR 0x0D, CHR 0x20])"

fun fields_from :: "string \<Rightarrow> string \<Rightarrow> string list" where
  "fields_from cur [] = (if cur = [] then [] else [cur])"
| "fields_from cur (c # cs) =
     (if isSpace c
      then (if cur = [] then fields_from [] cs else cur # fields_from [] cs)
      else fields_from (cur @ [c]) cs)"

fun fields_runes :: "(int \<Rightarrow> bool) \<Rightarrow> string \<Rightarrow> (int \<times> string) list \<Rightarrow> string list" where
  "fields_runes f cur [] = (if cur = [] then [] else [cur])"
| "fields_runes f cur ((r, bytes) # rest) =
     (if f r
      then (if cur = [] then fields_runes f [] rest else cur # fields_runes f [] rest)
      else fields_runes f (cur @ bytes) rest)"

definition FieldsFunc :: "(int \<Rightarrow> bool) \<Rightarrow> string \<Rightarrow> string list" where
  "FieldsFunc f s = fields_runes f [] (runes_of s)"

definition Fields :: "unicode_tables \<Rightarrow> string \<Rightarrow> string list" where
  "Fields U s = (if isASCII s then fields_from [] s else FieldsFunc (unicode_IsSpace U) s)"

text \<open>\<open>strings.Join\<close>.\<close>

fun Join :: "string list \<Rightarrow> string \<Rightarrow> string" where
  "Join [] sep = []"
| "Join [x] sep = x"
| "Join (x # y # ys) sep = x @ sep @ Join (y # ys) sep"

section \<open>Intent, entities and topics\<close>

definition extractIntent :: "unicode_tables \<Rightarrow> string \<Rightarrow> string" where
  "extractIntent U message =
     (let lower = ToLower U message in
      if Contains lower ''help'' \<or> Contains lower ''assist'' then ''help_request''
      else if Contains lower ''?'' then ''question''
      else if Contains lower ''thank'' then ''gratitude''
      else if Contains lower ''hello'' \<or> Contains lower ''hi'' then ''greeting''
      else ''general'')"

text \<open>
  \<open>extractEntities\<close>: the loop over the words, with the map \<open>entities\<close> as its state.
  Both tests are made for every word, in the source's order.
\<close>

fun entities_loop :: "(string \<rightharpoonup> string) \<Rightarrow> string list \<Rightarrow> (string \<rightharpoonup> string)" where
  "entities_loop entities [] = entities"
| "entities_loop entities (word # words) =
     (let e1 = (if HasPrefix word ''@'' then entities(''mention'' \<mapsto> word) else entities);
          e2 = (if HasPrefix word ''#'' then e1(''hashtag'' \<mapsto> word) else e1)
      in entities_loop e2 words)"

definition extractEntities :: "unicode_tables \<Rightarrow> string \<Rightarrow> (string \<rightharpoonup> string)" where
  "extractEntities U message = entities_loop Map.empty (Fields U (ToLower U message))"

text \<open>
  The keyword table of \<open>extractTopics\<close>, in the order of the map literal. Go ranges over
  a map in an unspecified order that can differ from one traversal to the next, so the
  order of one traversal is a parameter of \<open>extractTopics\<close> (the
  map \<open>keywords\<close> of the source is \<open>keywords_tbl\<close> here): any list with the entries
  of the table, each once.
\<close>

definition keywords_tbl :: "(string \<times> string) list" where
  "keywords_tbl =
     [(''code'', ''programming''),
      (''python'', ''programming''),
      (''go'', ''programming''),
      (''weather'', ''weather''),
      (''help'', ''support''),
      (''how'', ''tutorial'')]"

definition iteration_order :: "(string \<times> string) list \<Rightarrow> bool" where
  "iteration_order trav = (distinct trav \<and> set trav = set keywords_tbl)"

fun topics_loop :: "string \<Rightarrow> string list \<Rightarrow> (string \<times> string) list \<Rightarrow> string list" where
  "topics_loop lower topics [] = topics"
| "topics_loop lower topics ((keyword, topic) # rest) =
     topics_loop lower (if Contains lower keyword then topics @ [topic] else topics) rest"

definition extractTopics :: "unicode_tables \<Rightarrow> (string \<times> string) list \<Rightarrow> string \<Rightarrow> string list" where
  "extractTopics U trav message = topics_loop (ToLower U message) [] trav"

fun contains :: "string list \<Rightarrow> string \<Rightarrow> bool" where
  "contains [] item = False"
| "contains (s # rest) item = (if s = item then True else contains rest item)"

section \<open>The conversation store\<close>

text \<open>
  Go's \<open>int\<close> is taken as the 64-bit signed integer of the usual targets: a
  \<open>64 word\<close> read with \<open>sint\<close>, so that \<open>MessageCount++\<close> wraps around as the
  machine does. A \<open>time.Time\<close> is a number, the instant, with \<open>0\<close> for the zero value;
  the reading of the clock by \<open>time.Now()\<close> is a parameter \<open>now\<close>.
\<close>

type_synonym go_int = "64 word"
type_synonym time = nat

record ConversationContext =
  UserID :: string
  LastMessage :: string
  MessageCount :: go_int
  Topics :: "string list"
  Timestamp :: time

text \<open>
  \<open>conversationHistory\<close> is a \<open>map[string]*ConversationContext\<close>: the map holds
  pointers, and the contexts live in the heap. The state is the map, the heap (a context
  at every address) and the next address that \<open>&ConversationContext{...}\<close> hands out.
\<close>

type_synonym addr = nat

record state =
  conversationHistory :: "string \<rightharpoonup> addr"
  heap :: "addr \<Rightarrow> ConversationContext"
  nextAddr :: addr

definition zero_context :: ConversationContext where
  "zero_context =
     \<lparr>UserID = [], LastMessage = [], MessageCount = 0, Topics = [], Timestamp = 0\<rparr>"

definition init_state :: state where
  "init_state = \<lparr>conversationHistory = Map.empty, heap = (\<lambda>a. zero_context), nextAddr = 0\<rparr>"

text \<open>\<open>conversationHistory[userID]\<close> read through the pointer: \<open>None\<close> is Go's \<open>nil\<close>.\<close>

definition lookup :: "state \<Rightarrow> string \<Rightarrow> ConversationContext option" where
  "lookup st userID = map_option (heap st) (conversationHistory st userID)"

text \<open>The loop of \<open>updateConversationContext\<close> over the extracted topics.\<close>

fun add_topics :: "string list \<Rightarrow> string list \<Rightarrow> string list" where
  "add_topics ctxTopics [] = ctxTopics"
| "add_topics ctxTopics (topic # topics) =
     add_topics (if \<not> contains ctxTopics topic then ctxTopics @ [topic] else ctxTopics) topics"

definition updateConversationContext ::
  "unicode_tables \<Rightarrow> (string \<times> string) list \<Rightarrow> time \<Rightarrow> string \<Rightarrow> string \<Rightarrow> state \<Rightarrow> state" where
  "updateConversationContext U trav now userID message st =
     (let (ctx, st1) =
        (case conversationHistory st userID of
           Some p \<Rightarrow> (p, st)
         | None \<Rightarrow>
             (let p = nextAddr st in
              (p, st\<lparr>conversationHistory := (conversationHistory st)(userID \<mapsto> p),
                      heap := (heap st)(p :=
                        \<lparr>UserID = userID, LastMessage = [], MessageCount = 0,
                         Topics = [], Timestamp = 0\<rparr>),
                      nextAddr := Suc p\<rparr>)));
          c = heap st1 ctx;
          c1 = c\<lparr>LastMessage := message, MessageCount := MessageCount c + 1, Timestamp := now\<rparr>;
          topics = extractTopics U trav message;
          c2 = c1\<lparr>Topics := add_topics (Topics c1) topics\<rparr>
      in st1\<lparr>heap := (heap st1)(ctx := c2)\<rparr>)"

section \<open>The prompt\<close>

text \<open>\<open>%d\<close> of \<open>fmt.Sprintf\<close>: the decimal digits, with a minus sign below zero.\<close>

definition digit_char :: "nat \<Rightarrow> char" where
  "digit_char d = char_of (48 + d)"

fun digits :: "nat \<Rightarrow> string" where
  "digits n = (if n < 10 then [digit_char n] else digits (n div 10) @ [digit_char (n mod 10)])"

declare digits.simps [simp del]

definition format_d :: "go_int \<Rightarrow> string" where
  "format_d n = (if sint n < 0 then ''-'' @ digits (nat (- sint n)) else digits (nat (sint n)))"

definition buildContextPrompt :: "ConversationContext option \<Rightarrow> string \<Rightarrow> string" where
  "buildContextPrompt ctx message =
     (let prompt = ''You are a helpful AI assistant integrated with Telex.im messaging platform. '';
          prompt1 =
            (case ctx of
               None \<Rightarrow> prompt
             | Some c \<Rightarrow>
                 if 0 <s MessageCount c
                 then (let p = prompt @ ''This is message #'' @ format_d (MessageCount c)
                                 @ '' in the conversation. ''
                       in if 0 < length (Topics c)
                          then p @ ''Previous topics discussed: '' @ Join (Topics c) '', '' @ ''. ''
                          else p)
                 else prompt)
      in prompt1 @ ''Respond naturally and helpfully to the following message:'' @ [CHR 0x0A, CHR 0x0A]
           @ message)"

section \<open>The two external services\<close>

text \<open>
  An \<open>error\<close> of Go is its message. What the completion API and the messaging API answer
  is not in the program's hands: the world gives it, as a function of what is sent.
  For the completion call the answer is either a failure of \<open>client.Do\<close> or of
  \<open>io.ReadAll\<close>, or a status code, the body, and what \<open>json.Unmarshal\<close> makes of the
  body: an error, or the contents of the choices.
\<close>

type_synonym error = string

datatype groq_result =
  GroqFailed error
| GroqResponse nat string "error + string list"

datatype telex_result =
  TelexFailed error
| TelexResponse_of nat string

record TelexMessage =
  ID :: string
  From :: string
  To :: string
  Content :: string
  Timestamp_msg :: time
  Type :: string

record TelexUser =
  ID_user :: string
  Username :: string
  Name :: string

record TelexWebhook =
  Event :: string
  Message_wh :: TelexMessage
  User :: TelexUser

record TelexResponse =
  Status :: string
  Message :: string

record AgentResponse =
  Reply :: string
  Intent :: string
  Entities :: "string \<rightharpoonup> string"
  Confidence :: real

text \<open>
  The package variables set once by \<open>main\<close>, and the world of one request: the two
  services, the clock, and the order in which the keyword map is traversed.
\<close>

record config =
  groqAPIKey :: string
  telexAPIKey :: string
  telexBaseURL :: string
  agentID :: string

record world =
  groq :: "string \<Rightarrow> groq_result"
  telex :: "TelexMessage \<Rightarrow> telex_result"
  clock :: time
  traversal :: "(string \<times> string) list"

definition callGroqAPI :: "world \<Rightarrow> string \<Rightarrow> error + string" where
  "callGroqAPI w prompt =
     (case groq w prompt of
        GroqFailed err \<Rightarrow> Inl err
      | GroqResponse statusCode body choices \<Rightarrow>
          if statusCode \<noteq> 200 then Inl (''groq API error: '' @ body)
          else (case choices of
                  Inl err \<Rightarrow> Inl err
                | Inr [] \<Rightarrow> Inl ''empty response from Groq''
                | Inr (content # _) \<Rightarrow> Inr content))"

definition sendTelexMessage :: "world \<Rightarrow> config \<Rightarrow> string \<Rightarrow> string \<Rightarrow> error option" where
  "sendTelexMessage w cfg toUserID content =
     (let msg = \<lparr>ID = [], From = agentID cfg, To = toUserID, Content = content,
                 Timestamp_msg = clock w, Type = ''text''\<rparr>
      in case telex w msg of
           TelexFailed err \<Rightarrow> Some err
         | TelexResponse_of statusCode body \<Rightarrow>
             if statusCode \<noteq> 200 \<and> statusCode \<noteq> 201
             then Some (''telex API error: '' @ body) else None)"

definition generateAIResponse :: "unicode_tables \<Rightarrow> world \<Rightarrow> state \<Rightarrow> string \<Rightarrow> string \<Rightarrow> error + AgentResponse" where
  "generateAIResponse U w st userID message =
     (let ctx = lookup st userID;
          contextPrompt = buildContextPrompt ctx message
      in case callGroqAPI w contextPrompt of
           Inl err \<Rightarrow> Inl err
         | Inr groqResp \<Rightarrow>
             Inr \<lparr>Reply = groqResp, Intent = extractIntent U message,
                  Entities = extractEntities U message, Confidence = 0.90\<rparr>)"

section \<open>The handlers\<close>

text \<open>
  A handler answers with a status code and a JSON body, and leaves a state. The body that
  \<open>ShouldBindJSON\<close> reads is given as its result: the error, or the bound value.
\<close>

datatype json_body =
  JSON_TelexResponse TelexResponse
| JSON_AgentResponse AgentResponse
| JSON_error string

type_synonym response = "nat \<times> json_body"

definition apology :: string where
  "apology = ''I apologize, but I'm having trouble processing your message right now. Please try again.''"

text \<open>
  \<open>incoming_agentReply\<close> is the value of the variable \<open>agentReply\<close> of
  \<open>handleIncomingMessage\<close> once the error of \<open>generateAIResponse\<close> has been handled.
\<close>

definition incoming_agentReply :: "unicode_tables \<Rightarrow> world \<Rightarrow> state \<Rightarrow> TelexMessage \<Rightarrow> AgentResponse" where
  "incoming_agentReply U w st1 msg =
     (case generateAIResponse U w st1 (From msg) (Content msg) of
        Inl err \<Rightarrow> \<lparr>Reply = apology, Intent = [], Entities = Map.empty, Confidence = 0.0\<rparr>
      | Inr r \<Rightarrow> r)"

definition handleIncomingMessage :: "unicode_tables \<Rightarrow> world \<Rightarrow> config \<Rightarrow> TelexMessage \<Rightarrow> state \<Rightarrow> response \<times> state" where
  "handleIncomingMessage U w cfg msg st =
     (if From msg = agentID cfg
      then ((200, JSON_TelexResponse \<lparr>Status = ''ignored'', Message = []\<rparr>), st)
      else
        (let st1 = updateConversationContext U (traversal w) (clock w) (From msg) (Content msg) st;
             agentReply = incoming_agentReply U w st1 msg
         in case sendTelexMessage w cfg (From msg) (Reply agentReply) of
              Some err \<Rightarrow>
                ((500, JSON_TelexResponse \<lparr>Status = ''error'', Message = ''Failed to send response''\<rparr>), st1)
            | None \<Rightarrow>
                ((200, JSON_TelexResponse \<lparr>Status = ''success'', Message = ''Message processed''\<rparr>), st1)))"

definition handleUserJoined :: "world \<Rightarrow> config \<Rightarrow> TelexUser \<Rightarrow> state \<Rightarrow> response \<times> state" where
  "handleUserJoined w cfg user st =
     (let welcomeMsg = ''Welcome '' @ Name user @ ''! '' @ [CHR 0xF0, CHR 0x9F, CHR 0x91, CHR 0x8B]
            @ '' I'm an AI assistant here to help. Feel free to ask me anything!''
      in case sendTelexMessage w cfg (ID_user user) welcomeMsg of
           Some err \<Rightarrow>
             ((500, JSON_TelexResponse \<lparr>Status = ''error'', Message = ''Failed to send welcome message''\<rparr>), st)
         | None \<Rightarrow> ((200, JSON_TelexResponse \<lparr>Status = ''success'', Message = []\<rparr>), st))"

definition handleTelexWebhook ::
  "unicode_tables \<Rightarrow> world \<Rightarrow> config \<Rightarrow> string \<Rightarrow> error + TelexWebhook \<Rightarrow> state \<Rightarrow> response \<times> state" where
  "handleTelexWebhook U w cfg authHeader bound st =
     (if authHeader \<noteq> ''Bearer '' @ telexAPIKey cfg
      then ((401, JSON_TelexResponse \<lparr>Status = ''error'', Message = ''Unauthorized''\<rparr>), st)
      else
        (case bound of
           Inl err \<Rightarrow>
             ((400, JSON_TelexResponse \<lparr>Status = ''error'', Message = ''Invalid payload''\<rparr>), st)
         | Inr webhook \<Rightarrow>
             if Event webhook = ''message.received'' \<or> Event webhook = ''message''
             then handleIncomingMessage U w cfg (Message_wh webhook) st
             else if Event webhook = ''user.joined''
             then handleUserJoined w cfg (User webhook) st
             else if Event webhook = ''user.typing''
             then ((200, JSON_TelexResponse \<lparr>Status = ''acknowledged'', Message = []\<rparr>), st)
             else ((200, JSON_TelexResponse \<lparr>Status = ''acknowledged'', Message = []\<rparr>), st)))"

record direct_request =
  req_UserID :: string
  req_Message :: string

definition handleDirectMessage ::
  "unicode_tables \<Rightarrow> world \<Rightarrow> error + direct_request \<Rightarrow> state \<Rightarrow> response \<times> state" where
  "handleDirectMessage U w bound st =
     (case bound of
        Inl err \<Rightarrow> ((400, JSON_error err), st)
      | Inr req \<Rightarrow>
          (let st1 = updateConversationContext U (traversal w) (clock w) (req_UserID req) (req_Message req) st
           in case generateAIResponse U w st1 (req_UserID req) (req_Message req) of
                Inl err \<Rightarrow> ((500, JSON_error err), st1)
              | Inr agentReply \<Rightarrow> ((200, JSON_AgentResponse agentReply), st1)))"

text \<open>A run of store updates, oldest first: the traversal order, the clock, the user, the text.\<close>

fun run_updates :: "unicode_tables \<Rightarrow> ((string \<times> string) list \<times> time \<times> string \<times> string) list \<Rightarrow> state \<Rightarrow> state" where
  "run_updates U [] st = st"
| "run_updates U ((trav, now, userID, message) # rest) st =
     run_updates U rest (updateConversationContext U trav now userID message st)"

text \<open>
  The spec's union of tags, deduplicated, in first-seen order: every tag once, at the place
  of its first occurrence.
\<close>

fun dedup_first_seen :: "string list \<Rightarrow> string list" where
  "dedup_first_seen [] = []"
| "dedup_first_seen (x # xs) = x # dedup_first_seen (filter (\<lambda>y. y \<noteq> x) xs)"

text \<open>
  What a run of updates holds for one user: the updates of that user, and the tags
  extracted from their messages, oldest first.
\<close>

definition entries_of ::
  "string \<Rightarrow> ((string \<times> string) list \<times> time \<times> string \<times> string) list
     \<Rightarrow> ((string \<times> string) list \<times> time \<times> string \<times> string) list" where
  "entries_of u hist = filter (\<lambda>(trav, now, userID, message). userID = u) hist"

definition tags_of :: "unicode_tables \<Rightarrow> ((string \<times> string) list \<times> time \<times> string \<times> string) list \<Rightarrow> string list" where
  "tags_of U es = concat (map (\<lambda>(trav, now, userID, message). extractTopics U trav message) es)"

text \<open>
  The store is well formed when every pointer of the map was handed out before and points
  to the context of its own key; two keys then never share a context.
\<close>

definition store_ok :: "state \<Rightarrow> bool" where
  "store_ok st =
     (\<forall>userID p. conversationHistory st userID = Some p \<longrightarrow>
        p < nextAddr st \<and> UserID (heap st p) = userID)"

text \<open>
  Worlds and a configuration for concrete runs: a completion API that answers every
  prompt with status 500, one that answers with the prompt itself as its only choice, a
  messaging API that accepts every message, and the key and agent id of the demo script.
\<close>

definition groq_down :: "string \<Rightarrow> groq_result" where
  "groq_down prompt = GroqResponse 500 ''upstream unavailable'' (Inl ''unexpected end of JSON input'')"

definition groq_echo :: "string \<Rightarrow> groq_result" where
  "groq_echo prompt = GroqResponse 200 [] (Inr [prompt])"

definition telex_up :: "TelexMessage \<Rightarrow> telex_result" where
  "telex_up msg = TelexResponse_of 200 []"

definition world_down :: world where
  "world_down = \<lparr>groq = groq_down, telex = telex_up, clock = 1, traversal = keywords_tbl\<rparr>"

definition world_echo :: world where
  "world_echo = \<lparr>groq = groq_echo, telex = telex_up, clock = 1, traversal = keywords_tbl\<rparr>"

definition demo_config :: config where
  "demo_config =
     \<lparr>groqAPIKey = ''gsk_demo'', telexAPIKey = ''test_key_123'',
      telexBaseURL = ''https://api.telex.im/v1'', agentID = ''ai-agent-001''\<rparr>"

text \<open>
  An excerpt of the two Unicode tables for concrete runs: the lower case of the Latin-1
  capitals, of \<open>U+0130\<close> and of the Kelvin sign \<open>U+212A\<close>, and the white space above
  \<open>U+00FF\<close>.
\<close>

definition sample_tables :: unicode_tables where
  "sample_tables =
     \<lparr>lower_of = (\<lambda>r. if r = 0x212A then 0x6B
                      else if r = 0x130 then 0x69
                      else if 0xC0 \<le> r \<and> r \<le> 0xDE \<and> r \<noteq> 0xD7 then r + 0x20
                      else r),
      White_Space = (\<lambda>r. r \<in> set [0x1680, 0x2028, 0x2029, 0x202F, 0x205F, 0x3000]
                      \<or> (0x2000 \<le> r \<and> r \<le> 0x200A))\<rparr>"

section \<open>Facts about the strings\<close>

subsection \<open>Decoding stops at an ASCII byte\<close>

lemma not_cont_ascii: "(of_char a :: int) < 0x80 \<Longrightarrow> \<not> is_cont a"
  by (simp add: is_cont_def)

lemma not_second_ascii: "(of_char a :: int) < 0x80 \<Longrightarrow> \<not> second_ok b0 a"
  by (simp add: second_ok_def Let_def)

lemma DecodeRune_ascii: "(of_char c :: int) < 0x80 \<Longrightarrow> DecodeRune (c # cs) = (of_char c, 1)"
  by (simp add: DecodeRune_def)

lemma runes_of_ascii:
  "(of_char a :: int) < 0x80 \<Longrightarrow> runes_of (a # s) = (of_char a, [a]) # runes_of s"
  by (simp add: DecodeRune_ascii)

lemma DecodeRune_width_le: "snd (DecodeRune s) \<le> length s"
  by (simp add: DecodeRune_def Let_def split: list.splits)

lemma DecodeRune_stops_at_ascii:
  assumes "(of_char a :: int) < 0x80"
  shows "snd (DecodeRune (c # cs @ a # s)) - 1 \<le> length cs"
proof -
  note n = not_cont_ascii [OF assms] not_second_ascii [OF assms]
  consider "cs = []" | c1 where "cs = [c1]" | c1 c2 where "cs = [c1, c2]"
    | c1 c2 c3 rest where "cs = c1 # c2 # c3 # rest"
    by (cases cs rule: list.exhaust; simp) (metis list.exhaust)
  then show ?thesis
  proof cases
    case 1
    then show ?thesis by (simp add: DecodeRune_def Let_def n split: list.splits)
  next
    case 2
    then show ?thesis by (simp add: DecodeRune_def Let_def n split: list.splits)
  next
    case 3
    then show ?thesis by (simp add: DecodeRune_def Let_def n split: list.splits)
  next
    case 4
    then show ?thesis by (simp add: DecodeRune_def Let_def)
  qed
qed


lemma runes_of_boundary:
  assumes "(of_char a :: int) < 0x80"
  shows "\<exists>pre. runes_of (ps @ a # s) = pre @ runes_of (a # s)"
proof (induction ps rule: length_induct)
  case (1 ps)
  show ?case
  proof (cases ps)
    case Nil
    then show ?thesis by simp
  next
    case (Cons c cs)
    obtain r w where d: "DecodeRune (c # cs @ a # s) = (r, w)"
      by (cases "DecodeRune (c # cs @ a # s)") auto
    from DecodeRune_stops_at_ascii [OF assms, of c cs s] d have w: "w - 1 \<le> length cs"
      by simp
    then have "length (drop (w - 1) cs) < length ps"
      by (simp add: Cons)
    with 1 obtain pre where "runes_of (drop (w - 1) cs @ a # s) = pre @ runes_of (a # s)"
      by blast
    with d w have "runes_of (ps @ a # s) = ((r, c # take (w - 1) (cs @ a # s)) # pre) @ runes_of (a # s)"
      by (simp add: Cons)
    then show ?thesis by blast
  qed
qed

lemma runes_of_ascii_segment:
  "isASCII v \<Longrightarrow> runes_of (v @ s) = map (\<lambda>c. (of_char c, [c])) v @ runes_of s"
  by (induction v) (simp_all add: isASCII_def DecodeRune_ascii)

lemma EncodeRune_ToLower_ascii:
  assumes "(of_char c :: int) < 0x80"
  shows "0 \<le> unicode_ToLower U (of_char c)
       \<and> EncodeRune (unicode_ToLower U (of_char c)) = [toLower_byte c]"
proof -
  have conv: "(of_char c :: int) = int (of_char c :: nat)" by (simp add: of_nat_of_char)
  have nn: "(0 :: int) \<le> of_char c" unfolding conv by simp
  have le: "(of_char c :: int) \<le> 0x7F" using assms by simp
  show ?thesis
  proof (cases "65 \<le> (of_char c :: nat) \<and> (of_char c :: nat) \<le> 90")
    case True
    then have up: "0x41 \<le> (of_char c :: int)" "(of_char c :: int) \<le> 0x5A"
      unfolding conv by linarith+
    have l: "unicode_ToLower U (of_char c) = of_char c + 0x20"
      using up le by (simp add: unicode_ToLower_def)
    have "int (of_char c) + 32 = int ((of_char c :: nat) + 32)" by simp
    then have "char_of ((of_char c :: int) + 32) = char_of ((of_char c :: nat) + 32)"
      unfolding conv by (simp only: char_of_nat)
    then have e: "EncodeRune ((of_char c :: int) + 0x20) = [char_of ((of_char c :: nat) + 32)]"
      using up by (simp add: EncodeRune_def)
    have t: "toLower_byte c = char_of ((of_char c :: nat) + 32)"
      using True by (simp add: toLower_byte_def)
    from up show ?thesis by (simp add: l e t)
  next
    case False
    then have "\<not> (0x41 \<le> (of_char c :: int) \<and> (of_char c :: int) \<le> 0x5A)"
      unfolding conv by linarith
    then have l: "unicode_ToLower U (of_char c) = of_char c"
      using le by (simp add: unicode_ToLower_def)
    have e: "EncodeRune (of_char c :: int) = [c]"
      using nn le by (simp add: EncodeRune_def)
    have t: "toLower_byte c = c"
      using False by (auto simp: toLower_byte_def)
    from nn show ?thesis by (simp add: l e t)
  qed
qed

lemma Map_ToLower_ascii_segment:
  "isASCII v \<Longrightarrow>
     concat (map (\<lambda>(r, bytes). if unicode_ToLower U r < 0 then [] else EncodeRune (unicode_ToLower U r))
        (map (\<lambda>c. (of_char c, [c])) v)) = map toLower_byte v"
proof (induction v)
  case Nil
  then show ?case by simp
next
  case (Cons c v)
  then have a: "(of_char c :: int) < 0x80" and v: "isASCII v"
    by (simp_all add: isASCII_def)
  from EncodeRune_ToLower_ascii [OF a, of U] Cons.IH [OF v] show ?case
    by simp
qed

lemma ContainsI: "s = ps @ sub @ ss \<Longrightarrow> Contains s sub"
  by (auto simp: Contains_def sublist_def)

text \<open>An ASCII part of a string comes out of \<open>ToLower\<close> lowered byte by byte, in place.\<close>

lemma Contains_ToLower_ascii:
  assumes "Contains s v" and "isASCII v"
  shows "Contains (ToLower U s) (map toLower_byte v)"
proof -
  from assms(1) obtain ps ss where s: "s = ps @ v @ ss"
    by (auto simp: Contains_def sublist_def)
  show ?thesis
  proof (cases "isASCII s")
    case True
    then have "ToLower U s = map toLower_byte ps @ map toLower_byte v @ map toLower_byte ss"
      by (simp add: ToLower_def s)
    then show ?thesis by (rule ContainsI)
  next
    case False
    show ?thesis
    proof (cases v)
      case Nil
      then show ?thesis by (simp add: Contains_def)
    next
      case (Cons a v')
      let ?f = "\<lambda>(r, bytes). if unicode_ToLower U r < 0 then [] else EncodeRune (unicode_ToLower U r)"
      from Cons assms(2) have a: "(of_char a :: int) < 0x80" by (simp add: isASCII_def)
      from runes_of_boundary [OF a, of ps "v' @ ss"] obtain pre
        where "runes_of (ps @ a # v' @ ss) = pre @ runes_of (a # v' @ ss)" by blast
      then have "runes_of s = pre @ runes_of (v @ ss)"
        by (simp add: s Cons)
      then have "runes_of s = pre @ map (\<lambda>c. (of_char c, [c])) v @ runes_of ss"
        by (simp add: runes_of_ascii_segment [OF assms(2)])
      then have "Map (unicode_ToLower U) s =
          concat (map ?f (pre @ map (\<lambda>c. (of_char c, [c])) v @ runes_of ss))"
        by (simp only: Map_def)
      also have "\<dots> = concat (map ?f pre) @ concat (map ?f (map (\<lambda>c. (of_char c, [c])) v))
                    @ concat (map ?f (runes_of ss))"
        by (simp only: map_append concat_append)
      also have "concat (map ?f (map (\<lambda>c. (of_char c, [c])) v)) = map toLower_byte v"
        by (rule Map_ToLower_ascii_segment [OF assms(2)])
      finally have "Map (unicode_ToLower U) s =
          concat (map ?f pre) @ map toLower_byte v @ concat (map ?f (runes_of ss))" .
      with False show ?thesis
        by (simp add: ToLower_def ContainsI)
    qed
  qed
qed


lemma is_cont_ge: "is_cont c \<Longrightarrow> (0x80 :: int) \<le> of_char c"
  by (simp add: is_cont_def)

lemma second_ok_ge: "second_ok b0 c \<Longrightarrow> (0x80 :: int) \<le> of_char c"
  by (simp add: second_ok_def Let_def split: if_splits)

lemma isSpace_ascii: "isSpace c \<Longrightarrow> (of_char c :: int) < 0x80"
  by (auto simp: isSpace_def)

lemma isSpace_IsSpace: "isSpace c \<Longrightarrow> unicode_IsSpace U (of_char c)"
  by (auto simp: isSpace_def unicode_IsSpace_def)

lemma DecodeRune_tail_bytes:
  assumes "DecodeRune (c # cs) = (r, w)"
  shows "\<forall>x \<in> set (take (w - 1) cs). (0x80 :: int) \<le> of_char x"
  using assms
  by (auto simp: DecodeRune_def Let_def take_Cons' split: list.splits if_splits
           dest: is_cont_ge second_ok_ge)

lemma DecodeRune_chunk:
  assumes "DecodeRune (c # cs) = (r, w)" and "x \<in> set (c # take (w - 1) cs)" and "isSpace x"
  shows "unicode_IsSpace U r"
proof -
  from DecodeRune_tail_bytes [OF assms(1)] assms(3) isSpace_ascii [OF assms(3)]
  have "x \<notin> set (take (w - 1) cs)" by force
  with assms(2) have x: "x = c" by simp
  with assms(3) have "(of_char c :: int) < 0x80" by (simp add: isSpace_ascii)
  with assms(1) have "r = of_char c" by (simp add: DecodeRune_ascii)
  with assms(3) x show ?thesis by (simp add: isSpace_IsSpace)
qed

lemma runes_of_chunks:
  "(r, bytes) \<in> set (runes_of s) \<Longrightarrow>
     bytes \<noteq> [] \<and> (\<forall>x \<in> set bytes. isSpace x \<longrightarrow> unicode_IsSpace U r)"
proof (induction s rule: runes_of.induct)
  case 1
  then show ?case by simp
next
  case (2 c cs)
  obtain r0 w where d: "DecodeRune (c # cs) = (r0, w)"
    by (cases "DecodeRune (c # cs)") auto
  from "2.prems" d have "(r, bytes) = (r0, c # take (w - 1) cs) \<or> (r, bytes) \<in> set (runes_of (drop (w - 1) cs))"
    by simp
  then show ?case
  proof
    assume "(r, bytes) = (r0, c # take (w - 1) cs)"
    then show ?thesis using DecodeRune_chunk [OF d] by auto
  next
    assume "(r, bytes) \<in> set (runes_of (drop (w - 1) cs))"
    with "2.IH" [OF d [symmetric]] show ?thesis by simp
  qed
qed

lemma fields_runes_words:
  assumes "w \<in> set (fields_runes f cur chunks)"
    and "\<forall>c \<in> set cur. \<not> isSpace c"
    and "\<forall>(r, bytes) \<in> set chunks. bytes \<noteq> [] \<and> (\<forall>x \<in> set bytes. isSpace x \<longrightarrow> f r)"
  shows "w \<noteq> [] \<and> (\<forall>c \<in> set w. \<not> isSpace c)"
  using assms
proof (induction chunks arbitrary: cur)
  case Nil
  then show ?case by (cases "cur = []") simp_all
next
  case (Cons ch chunks)
  obtain r bytes where ch: "ch = (r, bytes)" by (cases ch) auto
  from Cons.prems(3) have rest: "\<forall>(r, bytes) \<in> set chunks. bytes \<noteq> [] \<and> (\<forall>x \<in> set bytes. isSpace x \<longrightarrow> f r)"
    by simp
  show ?case
  proof (cases "f r")
    case True
    with Cons.prems(1) have "w = cur \<and> cur \<noteq> [] \<or> w \<in> set (fields_runes f [] chunks)"
      by (cases "cur = []") (simp_all add: ch)
    then show ?thesis
    proof
      assume "w = cur \<and> cur \<noteq> []"
      with Cons.prems(2) show ?thesis by simp
    next
      assume "w \<in> set (fields_runes f [] chunks)"
      then show ?thesis using rest by (intro Cons.IH [of "[]"]) simp_all
    qed
  next
    case False
    with Cons.prems(1) have m: "w \<in> set (fields_runes f (cur @ bytes) chunks)"
      by (simp add: ch)
    from Cons.prems(3) False have "\<forall>x \<in> set bytes. \<not> isSpace x"
      by (auto simp: ch)
    with Cons.prems(2) have "\<forall>c \<in> set (cur @ bytes). \<not> isSpace c" by auto
    with m rest show ?thesis by (intro Cons.IH [of "cur @ bytes"])
  qed
qed

subsection \<open>The words of Fields\<close>

lemma fields_from_words:
  "w \<in> set (fields_from cur s) \<Longrightarrow> \<forall>c \<in> set cur. \<not> isSpace c \<Longrightarrow>
     w \<noteq> [] \<and> (\<forall>c \<in> set w. \<not> isSpace c)"
proof (induction s arbitrary: cur)
  case Nil
  then show ?case by (cases "cur = []") simp_all
next
  case (Cons c cs)
  show ?case
  proof (cases "isSpace c")
    case True
    with Cons.prems(1) have "w = cur \<and> cur \<noteq> [] \<or> w \<in> set (fields_from [] cs)"
      by (cases "cur = []") simp_all
    then show ?thesis
    proof
      assume "w = cur \<and> cur \<noteq> []"
      with Cons.prems(2) show ?thesis by simp
    next
      assume "w \<in> set (fields_from [] cs)"
      then show ?thesis by (rule Cons.IH) simp
    qed
  next
    case False
    with Cons.prems(1) have "w \<in> set (fields_from (cur @ [c]) cs)" by simp
    then show ?thesis
      by (rule Cons.IH) (use Cons.prems(2) False in simp)
  qed
qed

lemma Fields_words:
  assumes "w \<in> set (Fields U s)"
  shows "w \<noteq> [] \<and> (\<forall>c \<in> set w. \<not> isSpace c)"
proof (cases "isASCII s")
  case True
  with assms have "w \<in> set (fields_from [] s)" by (simp add: Fields_def)
  then show ?thesis by (rule fields_from_words) simp
next
  case False
  with assms have "w \<in> set (fields_runes (unicode_IsSpace U) [] (runes_of s))"
    by (simp add: Fields_def FieldsFunc_def)
  then show ?thesis
    by (rule fields_runes_words) (use runes_of_chunks [of _ _ s U] in auto)
qed

lemma help_is_lower: "isASCII ''help'' \<and> map toLower_byte ''help'' = ''help''"
  by code_simp

lemma toLower_byte_ascii:
  assumes "(of_char c :: int) < 0x80"
  shows "(of_char (toLower_byte c) :: int) < 0x80"
proof (cases "65 \<le> (of_char c :: nat) \<and> (of_char c :: nat) \<le> 90")
  case True
  then have "toLower_byte c = char_of ((of_char c :: nat) + 32)"
    by (simp add: toLower_byte_def)
  then have "(of_char (toLower_byte c) :: nat) = ((of_char c :: nat) + 32) mod 256"
    by (simp only: of_char_of)
  with True have "(of_char (toLower_byte c) :: nat) < 128" by simp
  then have "int (of_char (toLower_byte c) :: nat) < 128" by simp
  then show ?thesis by (simp only: of_nat_of_char)
next
  case False
  then have "toLower_byte c = c" by (auto simp: toLower_byte_def)
  with assms show ?thesis by simp
qed

section \<open>Intent classification\<close>

text \<open>
  Claim C4. \<open>extractIntent\<close> lowercases the message and applies its rules in a fixed
  order of priority: \<open>help\<close> or \<open>assist\<close> gives \<open>help_request\<close>; otherwise \<open>?\<close> gives
  \<open>question\<close>; otherwise \<open>thank\<close> gives \<open>gratitude\<close>; otherwise \<open>hello\<close> or \<open>hi\<close> gives
  \<open>greeting\<close>; otherwise the label is \<open>general\<close>. In particular a message that itself
  contains \<open>help\<close> and \<open>?\<close> is a \<open>help_request\<close>, and the result is always one of the
  five labels. The lowercasing is that of the text the rules read: every ASCII part of
  the message occurs in it with \<open>A\<close> .. \<open>Z\<close> lowered, and for a message of ASCII bytes it
  is the message lowered byte by byte.
\<close>

theorem extractIntent_priority:
  fixes U :: unicode_tables and message :: string
  defines "lower \<equiv> ToLower U message"
  shows "((Contains lower ''help'' \<or> Contains lower ''assist'') \<longrightarrow>
            extractIntent U message = ''help_request'')
       \<and> (\<not> (Contains lower ''help'' \<or> Contains lower ''assist'') \<and> Contains lower ''?'' \<longrightarrow>
            extractIntent U message = ''question'')
       \<and> (\<not> (Contains lower ''help'' \<or> Contains lower ''assist'') \<and> \<not> Contains lower ''?''
            \<and> Contains lower ''thank'' \<longrightarrow>
            extractIntent U message = ''gratitude'')
       \<and> (\<not> (Contains lower ''help'' \<or> Contains lower ''assist'') \<and> \<not> Contains lower ''?''
            \<and> \<not> Contains lower ''thank'' \<and> (Contains lower ''hello'' \<or> Contains lower ''hi'') \<longrightarrow>
            extractIntent U message = ''greeting'')
       \<and> (\<not> (Contains lower ''help'' \<or> Contains lower ''assist'') \<and> \<not> Contains lower ''?''
            \<and> \<not> Contains lower ''thank'' \<and> \<not> (Contains lower ''hello'' \<or> Contains lower ''hi'') \<longrightarrow>
            extractIntent U message = ''general'')
       \<and> (Contains message ''help'' \<and> Contains message ''?'' \<longrightarrow>
            extractIntent U message = ''help_request'')
       \<and> extractIntent U message \<in>
            {''help_request'', ''question'', ''gratitude'', ''greeting'', ''general''}
       \<and> (\<forall>v. Contains message v \<and> isASCII v \<longrightarrow> Contains lower (map toLower_byte v))
       \<and> (isASCII message \<longrightarrow> lower = map toLower_byte message)"
proof -
  have particular: "extractIntent U message = ''help_request''" if "Contains message ''help''"
  proof -
    from that help_is_lower have "Contains lower (map toLower_byte ''help'')"
      unfolding lower_def by (intro Contains_ToLower_ascii) simp_all
    then have "Contains lower ''help''" by (simp only: help_is_lower)
    then show ?thesis by (simp add: extractIntent_def lower_def)
  qed
  have parts: "\<forall>v. Contains message v \<and> isASCII v \<longrightarrow> Contains lower (map toLower_byte v)"
    unfolding lower_def by (simp add: Contains_ToLower_ascii)
  have whole: "isASCII message \<longrightarrow> lower = map toLower_byte message"
    by (simp add: lower_def ToLower_def)
  have chain: "((Contains lower ''help'' \<or> Contains lower ''assist'') \<longrightarrow>
            extractIntent U message = ''help_request'')
       \<and> (\<not> (Contains lower ''help'' \<or> Contains lower ''assist'') \<and> Contains lower ''?'' \<longrightarrow>
            extractIntent U message = ''question'')
       \<and> (\<not> (Contains lower ''help'' \<or> Contains lower ''assist'') \<and> \<not> Contains lower ''?''
            \<and> Contains lower ''thank'' \<longrightarrow>
            extractIntent U message = ''gratitude'')
       \<and> (\<not> (Contains lower ''help'' \<or> Contains lower ''assist'') \<and> \<not> Contains lower ''?''
            \<and> \<not> Contains lower ''thank'' \<and> (Contains lower ''hello'' \<or> Contains lower ''hi'') \<longrightarrow>
            extractIntent U message = ''greeting'')
       \<and> (\<not> (Contains lower ''help'' \<or> Contains lower ''assist'') \<and> \<not> Contains lower ''?''
            \<and> \<not> Contains lower ''thank'' \<and> \<not> (Contains lower ''hello'' \<or> Contains lower ''hi'') \<longrightarrow>
            extractIntent U message = ''general'')
       \<and> extractIntent U message \<in>
            {''help_request'', ''question'', ''gratitude'', ''greeting'', ''general''}"
    by (simp add: extractIntent_def lower_def Let_def)
  from chain particular parts whole show ?thesis
    by (intro conjI impI) (elim conjE, simp_all)
qed

theorem extractIntent_priority_witness:
  "Contains ''CAN YOU HELP ME?'' ''HELP'' \<and> isASCII ''HELP''
   \<and> extractIntent sample_tables ''CAN YOU HELP ME?'' = ''help_request''
   \<and> Contains ''Can you help me?'' ''help'' \<and> Contains ''Can you help me?'' ''?''
   \<and> extractIntent sample_tables ''Can you help me?'' = ''help_request''
   \<and> extractIntent sample_tables (''THAN'' @ [CHR 0xE2, CHR 0x84, CHR 0xAA] @ '' you'') = ''gratitude''"
proof -
  have a: "Contains ''CAN YOU HELP ME?'' ''HELP''" by code_simp
  have b: "isASCII ''HELP''" by code_simp
  have l: "map toLower_byte ''HELP'' = ''help''" by code_simp
  note th = extractIntent_priority [where U = sample_tables and message = "''CAN YOU HELP ME?''"]
  from th have p: "\<forall>v. Contains ''CAN YOU HELP ME?'' v \<and> isASCII v \<longrightarrow>
      Contains (ToLower sample_tables ''CAN YOU HELP ME?'') (map toLower_byte v)"
    by (elim conjE) assumption
  have "Contains (ToLower sample_tables ''CAN YOU HELP ME?'') (map toLower_byte ''HELP'')"
    by (rule p [rule_format, OF conjI [OF a b]])
  then have c: "Contains (ToLower sample_tables ''CAN YOU HELP ME?'') ''help''"
    by (simp only: l)
  from th have "(Contains (ToLower sample_tables ''CAN YOU HELP ME?'') ''help''
        \<or> Contains (ToLower sample_tables ''CAN YOU HELP ME?'') ''assist'') \<longrightarrow>
      extractIntent sample_tables ''CAN YOU HELP ME?'' = ''help_request''"
    by (elim conjE) assumption
  then have r1: "extractIntent sample_tables ''CAN YOU HELP ME?'' = ''help_request''"
    using c by (rule mp [OF _ disjI1])
  have d: "Contains ''Can you help me?'' ''help''" by code_simp
  have e: "Contains ''Can you help me?'' ''?''" by code_simp
  from extractIntent_priority [where U = sample_tables and message = "''Can you help me?''"]
  have "Contains ''Can you help me?'' ''help'' \<and> Contains ''Can you help me?'' ''?'' \<longrightarrow>
      extractIntent sample_tables ''Can you help me?'' = ''help_request''"
    by (elim conjE) assumption
  then have r2: "extractIntent sample_tables ''Can you help me?'' = ''help_request''"
    using d e by (rule mp [OF _ conjI])
  have k: "extractIntent sample_tables (''THAN'' @ [CHR 0xE2, CHR 0x84, CHR 0xAA] @ '' you'') = ''gratitude''"
    by code_simp
  show ?thesis
    by (rule conjI [OF a conjI [OF b conjI [OF r1 conjI [OF d conjI [OF e conjI [OF r2 k]]]]]])
qed

section \<open>Entity extraction\<close>

lemma entities_loop_mention:
  "entities_loop e ws ''mention'' =
     (case filter (\<lambda>w. HasPrefix w ''@'') ws of [] \<Rightarrow> e ''mention'' | m # ms \<Rightarrow> Some (last (m # ms)))"
  by (induction ws arbitrary: e) (auto simp: Let_def split: list.splits)

lemma entities_loop_hashtag:
  "entities_loop e ws ''hashtag'' =
     (case filter (\<lambda>w. HasPrefix w ''#'') ws of [] \<Rightarrow> e ''hashtag'' | m # ms \<Rightarrow> Some (last (m # ms)))"
  by (induction ws arbitrary: e) (auto simp: Let_def split: list.splits)

lemma entities_loop_other:
  "x \<noteq> ''mention'' \<Longrightarrow> x \<noteq> ''hashtag'' \<Longrightarrow> entities_loop e ws x = e x"
  by (induction ws arbitrary: e) (auto simp: Let_def)

lemma entities_loop_dom:
  "dom (entities_loop e ws) \<subseteq> dom e \<union> {''mention'', ''hashtag''}"
proof
  fix x assume x: "x \<in> dom (entities_loop e ws)"
  show "x \<in> dom e \<union> {''mention'', ''hashtag''}"
  proof (cases "x = ''mention'' \<or> x = ''hashtag''")
    case True
    then show ?thesis by auto
  next
    case False
    then have "entities_loop e ws x = e x" by (simp add: entities_loop_other)
    with x show ?thesis by (auto simp: dom_def)
  qed
qed

lemma example_words:
  "Fields U (ToLower U ''hey @john check #x and @mary'')
     = [''hey'', ''@john'', ''check'', ''#x'', ''and'', ''@mary'']"
proof -
  have asc: "isASCII ''hey @john check #x and @mary''" by code_simp
  have low: "map toLower_byte ''hey @john check #x and @mary'' = ''hey @john check #x and @mary''"
    by code_simp
  have "ToLower U ''hey @john check #x and @mary'' = ''hey @john check #x and @mary''"
    by (simp only: ToLower_def asc if_True low)
  moreover have "Fields U ''hey @john check #x and @mary'' = fields_from [] ''hey @john check #x and @mary''"
    by (simp only: Fields_def asc if_True)
  moreover have "fields_from [] ''hey @john check #x and @mary''
      = [''hey'', ''@john'', ''check'', ''#x'', ''and'', ''@mary'']"
    by code_simp
  ultimately show ?thesis by (simp only:)
qed

text \<open>
  Claim C8. \<open>extractEntities\<close> lowercases the message and splits it at white space;
  the \<open>mention\<close> entry is the last word that starts with \<open>@\<close>, the \<open>hashtag\<close>
  entry the last word that starts with \<open>#\<close>, and an entry is absent when no word
  starts so. The words are not empty and hold no white space; for a message of ASCII
  bytes they are the runs between white space of the message lowered byte by byte. On
  \<open>hey @john check #x and @mary\<close> the mention is \<open>@mary\<close> and the hashtag \<open>#x\<close>.
\<close>

theorem extractEntities_last_wins:
  fixes U :: unicode_tables and message :: string
  defines "ws \<equiv> Fields U (ToLower U message)"
  shows "extractEntities U message ''mention'' =
           (case filter (\<lambda>w. HasPrefix w ''@'') ws of [] \<Rightarrow> None | m # ms \<Rightarrow> Some (last (m # ms)))
       \<and> extractEntities U message ''hashtag'' =
           (case filter (\<lambda>w. HasPrefix w ''#'') ws of [] \<Rightarrow> None | m # ms \<Rightarrow> Some (last (m # ms)))
       \<and> dom (extractEntities U message) \<subseteq> {''mention'', ''hashtag''}
       \<and> (\<forall>w \<in> set ws. w \<noteq> [] \<and> (\<forall>c \<in> set w. \<not> isSpace c))
       \<and> (isASCII message \<longrightarrow> ws = fields_from [] (map toLower_byte message))
       \<and> extractEntities U ''hey @john check #x and @mary'' ''mention'' = Some ''@mary''
       \<and> extractEntities U ''hey @john check #x and @mary'' ''hashtag'' = Some ''#x''"
proof -
  have a: "extractEntities U ''hey @john check #x and @mary'' ''mention'' = Some ''@mary''"
    unfolding extractEntities_def example_words
    by (simp add: entities_loop_mention HasPrefix_def)
  have b: "extractEntities U ''hey @john check #x and @mary'' ''hashtag'' = Some ''#x''"
    unfolding extractEntities_def example_words
    by (simp add: entities_loop_hashtag HasPrefix_def)
  have d: "dom (extractEntities U message) \<subseteq> {''mention'', ''hashtag''}"
    using entities_loop_dom [of Map.empty ws] by (simp add: extractEntities_def ws_def)
  have w: "\<forall>w \<in> set ws. w \<noteq> [] \<and> (\<forall>c \<in> set w. \<not> isSpace c)"
    unfolding ws_def using Fields_words by blast
  have asc: "ws = fields_from [] (map toLower_byte message)" if "isASCII message"
  proof -
    from that have "isASCII (map toLower_byte message)"
      by (simp add: isASCII_def list_all_iff toLower_byte_ascii)
    with that show ?thesis by (simp add: ws_def ToLower_def Fields_def)
  qed
  have m: "extractEntities U message ''mention'' =
           (case filter (\<lambda>w. HasPrefix w ''@'') ws of [] \<Rightarrow> None | m # ms \<Rightarrow> Some (last (m # ms)))"
    by (simp add: extractEntities_def ws_def entities_loop_mention)
  have h: "extractEntities U message ''hashtag'' =
           (case filter (\<lambda>w. HasPrefix w ''#'') ws of [] \<Rightarrow> None | m # ms \<Rightarrow> Some (last (m # ms)))"
    by (simp add: extractEntities_def ws_def entities_loop_hashtag)
  from m h d w asc a b show ?thesis by (intro conjI impI)
qed

theorem extractEntities_last_wins_witness:
  "isASCII ''Ask @Ann and @BOB about #Go''
   \<and> extractEntities sample_tables ''Ask @Ann and @BOB about #Go'' ''mention'' = Some ''@bob''
   \<and> extractEntities sample_tables ''Ask @Ann and @BOB about #Go'' ''hashtag'' = Some ''#go''
   \<and> extractEntities sample_tables (''@A'' @ [CHR 0xC2, CHR 0xA0] @ ''#B'') ''mention'' = Some ''@a''
   \<and> extractEntities sample_tables (''@A'' @ [CHR 0xC2, CHR 0xA0] @ ''#B'') ''hashtag'' = Some ''#b''
   \<and> extractEntities sample_tables [CHR ''#'', CHR 0xC3, CHR 0x89, CHR ''T'', CHR 0xC3, CHR 0x89] ''hashtag''
       = Some [CHR ''#'', CHR 0xC3, CHR 0xA9, CHR ''t'', CHR 0xC3, CHR 0xA9]"
proof -
  have asc: "isASCII ''Ask @Ann and @BOB about #Go''" by code_simp
  have ex: "fields_from [] (map toLower_byte ''Ask @Ann and @BOB about #Go'')
              = [''ask'', ''@ann'', ''and'', ''@bob'', ''about'', ''#go'']"
    by code_simp
  note th = extractEntities_last_wins [where U = sample_tables and message = "''Ask @Ann and @BOB about #Go''"]
  from th have "isASCII ''Ask @Ann and @BOB about #Go'' \<longrightarrow>
      Fields sample_tables (ToLower sample_tables ''Ask @Ann and @BOB about #Go'')
        = fields_from [] (map toLower_byte ''Ask @Ann and @BOB about #Go'')"
    by (elim conjE) assumption
  then have ws: "Fields sample_tables (ToLower sample_tables ''Ask @Ann and @BOB about #Go'')
        = [''ask'', ''@ann'', ''and'', ''@bob'', ''about'', ''#go'']"
    using asc unfolding ex by (rule mp)
  from th have m: "extractEntities sample_tables ''Ask @Ann and @BOB about #Go'' ''mention'' = Some ''@bob''"
    unfolding ws by (simp add: HasPrefix_def)
  from th have h: "extractEntities sample_tables ''Ask @Ann and @BOB about #Go'' ''hashtag'' = Some ''#go''"
    unfolding ws by (simp add: HasPrefix_def)
  have ws2: "Fields sample_tables (ToLower sample_tables (''@A'' @ [CHR 0xC2, CHR 0xA0] @ ''#B''))
        = [''@a'', ''#b'']"
    by code_simp
  note th2 = extractEntities_last_wins [where U = sample_tables
      and message = "''@A'' @ [CHR 0xC2, CHR 0xA0] @ ''#B''"]
  from th2 have m2: "extractEntities sample_tables (''@A'' @ [CHR 0xC2, CHR 0xA0] @ ''#B'') ''mention'' = Some ''@a''"
    unfolding ws2 by (simp add: HasPrefix_def)
  from th2 have h2: "extractEntities sample_tables (''@A'' @ [CHR 0xC2, CHR 0xA0] @ ''#B'') ''hashtag'' = Some ''#b''"
    unfolding ws2 by (simp add: HasPrefix_def)
  have ws3: "Fields sample_tables (ToLower sample_tables [CHR ''#'', CHR 0xC3, CHR 0x89, CHR ''T'', CHR 0xC3, CHR 0x89])
        = [[CHR ''#'', CHR 0xC3, CHR 0xA9, CHR ''t'', CHR 0xC3, CHR 0xA9]]"
    by code_simp
  note th3 = extractEntities_last_wins [where U = sample_tables
      and message = "[CHR ''#'', CHR 0xC3, CHR 0x89, CHR ''T'', CHR 0xC3, CHR 0x89]"]
  from th3 have h3: "extractEntities sample_tables [CHR ''#'', CHR 0xC3, CHR 0x89, CHR ''T'', CHR 0xC3, CHR 0x89] ''hashtag''
       = Some [CHR ''#'', CHR 0xC3, CHR 0xA9, CHR ''t'', CHR 0xC3, CHR 0xA9]"
    unfolding ws3 by (simp add: HasPrefix_def)
  show ?thesis
    by (rule conjI [OF asc conjI [OF m conjI [OF h conjI [OF m2 conjI [OF h2 h3]]]]])
qed

section \<open>Topic extraction\<close>

lemma topics_loop_filter:
  "topics_loop lower acc trav = acc @ map snd (filter (\<lambda>(k, t). Contains lower k) trav)"
  by (induction lower acc trav rule: topics_loop.induct) simp_all

lemma extractTopics_filter:
  "extractTopics U trav message = map snd (filter (\<lambda>(k, t). Contains (ToLower U message) k) trav)"
  by (simp add: extractTopics_def topics_loop_filter)

lemma contains_set: "contains xs x = (x \<in> set xs)"
  by (induction xs) auto

lemma add_topics_distinct: "distinct ts \<Longrightarrow> distinct (add_topics ts new)"
  by (induction new arbitrary: ts) (simp_all add: contains_set)

lemma add_topics_set: "set (add_topics ts new) = set ts \<union> set new"
  by (induction new arbitrary: ts) (auto simp: contains_set)

lemma add_topics_prefix: "prefix ts (add_topics ts new)"
proof (induction new arbitrary: ts)
  case Nil
  then show ?case by simp
next
  case (Cons x new)
  have "prefix ts (if \<not> contains ts x then ts @ [x] else ts)" by simp
  also have "prefix \<dots> (add_topics (if \<not> contains ts x then ts @ [x] else ts) new)"
    by (rule Cons.IH)
  finally show ?case by simp
qed

lemma count_list_map_snd:
  "count_list (map snd ps) t = length (filter (\<lambda>p. snd p = t) ps)"
  by (induction ps) auto

lemma length_filter_card:
  "distinct ps \<Longrightarrow> length (filter P ps) = card {p \<in> set ps. P p}"
  by (metis distinct_filter distinct_card set_filter)

text \<open>
  Claim C2, as amended. \<open>extractTopics\<close> does not remove duplicates: for every
  traversal order of the keyword table it returns one tag for each keyword that occurs in
  the lowercased message, so a tag appears as many times as there are occurring keywords
  that map to it. The tags are those of the occurring keywords. The duplicates go only
  when \<open>updateConversationContext\<close> merges the result into a topics list: merged into
  the empty list, the result has the same tags, each once.
\<close>

theorem extractTopics_one_tag_per_keyword:
  assumes "iteration_order trav"
  shows "(\<forall>t. count_list (extractTopics U trav message) t =
               card {k. (k, t) \<in> set keywords_tbl \<and> Contains (ToLower U message) k})
       \<and> set (extractTopics U trav message) =
           {t. \<exists>k. (k, t) \<in> set keywords_tbl \<and> Contains (ToLower U message) k}
       \<and> distinct (add_topics [] (extractTopics U trav message))
       \<and> set (add_topics [] (extractTopics U trav message)) = set (extractTopics U trav message)"
proof -
  let ?P = "\<lambda>k. Contains (ToLower U message) k"
  from assms have d: "distinct trav" and s: "set trav = set keywords_tbl"
    by (simp_all add: iteration_order_def)
  have cnt: "count_list (extractTopics U trav message) t = card {k. (k, t) \<in> set keywords_tbl \<and> ?P k}" for t
  proof -
    have "count_list (extractTopics U trav message) t
            = length (filter (\<lambda>p. snd p = t) (filter (\<lambda>(k, t). ?P k) trav))"
      by (simp add: extractTopics_filter count_list_map_snd)
    also have "\<dots> = length (filter (\<lambda>p. ?P (fst p) \<and> snd p = t) trav)"
      by (simp add: case_prod_unfold conj_commute)
    also have "\<dots> = card {p \<in> set trav. ?P (fst p) \<and> snd p = t}"
      using d by (rule length_filter_card)
    also have "{p \<in> set trav. ?P (fst p) \<and> snd p = t}
                 = (\<lambda>k. (k, t)) ` {k. (k, t) \<in> set keywords_tbl \<and> ?P k}"
      using s by force
    also have "card \<dots> = card {k. (k, t) \<in> set keywords_tbl \<and> ?P k}"
      by (rule card_image) (simp add: inj_on_def)
    finally show ?thesis .
  qed
  have st: "set (extractTopics U trav message) = {t. \<exists>k. (k, t) \<in> set keywords_tbl \<and> ?P k}"
    using s by (force simp: extractTopics_filter)
  show ?thesis
    using cnt st by (simp add: add_topics_distinct add_topics_set)
qed

theorem extractTopics_one_tag_per_keyword_witness:
  "iteration_order (rev keywords_tbl)
   \<and> count_list (extractTopics sample_tables (rev keywords_tbl) ''Python code'') ''programming'' = 2"
proof -
  have "distinct keywords_tbl"
    by (simp add: keywords_tbl_def)
  then have io: "iteration_order (rev keywords_tbl)"
    by (simp add: iteration_order_def)
  have "{k. (k, ''programming'') \<in> set keywords_tbl \<and> Contains (ToLower sample_tables ''Python code'') k}
          = {''code'', ''python''}"
  proof -
    have a: "Contains (ToLower sample_tables ''Python code'') ''code''" by code_simp
    have b: "Contains (ToLower sample_tables ''Python code'') ''python''" by code_simp
    have c: "\<not> Contains (ToLower sample_tables ''Python code'') ''go''" by code_simp
    show ?thesis using a b c by (auto simp: keywords_tbl_def)
  qed
  then show ?thesis
    using io extractTopics_one_tag_per_keyword [OF io, where U = sample_tables and message = "''Python code''"] by simp
qed

text \<open>
  Claim C2 as stated fails: \<open>code\<close> and \<open>python\<close> both map to \<open>programming\<close>, and a
  message with both gets the tag twice.
\<close>

theorem extractTopics_duplicate_counterexample:
  "\<not> distinct (extractTopics sample_tables keywords_tbl ''code python'')"
  by code_simp

section \<open>Facts about the store\<close>

lemma add_topics_dedup:
  "add_topics ts ys = ts @ dedup_first_seen (filter (\<lambda>y. y \<notin> set ts) ys)"
proof (induction ys arbitrary: ts)
  case Nil
  then show ?case by simp
next
  case (Cons y ys)
  show ?case
  proof (cases "y \<in> set ts")
    case True
    then show ?thesis by (simp add: contains_set Cons.IH)
  next
    case False
    have "filter (\<lambda>z. z \<noteq> y) (filter (\<lambda>z. z \<notin> set ts) ys) = filter (\<lambda>z. z \<notin> set (ts @ [y])) ys"
      by (induction ys) auto
    with False show ?thesis by (simp add: contains_set Cons.IH)
  qed
qed

lemma add_topics_Nil: "add_topics [] ys = dedup_first_seen ys"
  by (simp add: add_topics_dedup)

lemma add_topics_append: "add_topics ts (xs @ ys) = add_topics (add_topics ts xs) ys"
  by (induction xs arbitrary: ts) simp_all

lemma add_topics_dedup_append:
  "add_topics (dedup_first_seen xs) ys = dedup_first_seen (xs @ ys)"
  by (metis add_topics_Nil add_topics_append)

lemma distinct_dedup_first_seen: "distinct (dedup_first_seen xs)"
  by (metis add_topics_Nil add_topics_distinct distinct.simps(1))

lemma set_dedup_first_seen: "set (dedup_first_seen xs) = set xs"
  by (metis add_topics_Nil add_topics_set empty_set sup_bot.left_neutral)

lemma update_new:
  assumes "conversationHistory st userID = None"
  shows "updateConversationContext U trav now userID message st =
           st\<lparr>conversationHistory := (conversationHistory st)(userID \<mapsto> nextAddr st),
              heap := (heap st)(nextAddr st :=
                \<lparr>UserID = userID, LastMessage = message, MessageCount = 1,
                 Topics = add_topics [] (extractTopics U trav message), Timestamp = now\<rparr>),
              nextAddr := Suc (nextAddr st)\<rparr>"
  using assms by (simp add: updateConversationContext_def Let_def)

lemma update_old:
  assumes "conversationHistory st userID = Some p"
  shows "updateConversationContext U trav now userID message st =
           st\<lparr>heap := (heap st)(p :=
                (heap st p)\<lparr>LastMessage := message,
                             MessageCount := MessageCount (heap st p) + 1,
                             Timestamp := now,
                             Topics := add_topics (Topics (heap st p)) (extractTopics U trav message)\<rparr>)\<rparr>"
  using assms by (simp add: updateConversationContext_def Let_def)

lemma lookup_update_new:
  assumes "lookup st userID = None"
  shows "lookup (updateConversationContext U trav now userID message st) userID =
           Some \<lparr>UserID = userID, LastMessage = message, MessageCount = 1,
                 Topics = dedup_first_seen (extractTopics U trav message), Timestamp = now\<rparr>"
proof -
  from assms have "conversationHistory st userID = None" by (simp add: lookup_def)
  then show ?thesis by (simp add: update_new lookup_def add_topics_Nil)
qed

lemma lookup_update_old:
  assumes "lookup st userID = Some c"
  shows "lookup (updateConversationContext U trav now userID message st) userID =
           Some (c\<lparr>LastMessage := message, MessageCount := MessageCount c + 1, Timestamp := now,
                   Topics := add_topics (Topics c) (extractTopics U trav message)\<rparr>)"
proof -
  from assms obtain p where "conversationHistory st userID = Some p" and "heap st p = c"
    by (auto simp: lookup_def)
  then show ?thesis by (simp add: update_old lookup_def)
qed

lemma lookup_update_other:
  assumes "store_ok st" and "v \<noteq> userID"
  shows "lookup (updateConversationContext U trav now userID message st) v = lookup st v"
proof (cases "conversationHistory st userID")
  case None
  show ?thesis
  proof (cases "conversationHistory st v")
    case None
    with \<open>conversationHistory st userID = None\<close> assms(2) show ?thesis
      by (simp add: update_new lookup_def)
  next
    case (Some q)
    with assms(1) have "q < nextAddr st" by (simp add: store_ok_def)
    with Some \<open>conversationHistory st userID = None\<close> assms(2) show ?thesis
      by (simp add: update_new lookup_def)
  qed
next
  case (Some p)
  show ?thesis
  proof (cases "conversationHistory st v")
    case None
    with Some show ?thesis by (simp add: update_old lookup_def)
  next
    case q: (Some q)
    from assms(1) Some have "UserID (heap st p) = userID" by (simp add: store_ok_def)
    moreover from assms(1) q have "UserID (heap st q) = v" by (simp add: store_ok_def)
    ultimately have "q \<noteq> p" using assms(2) by auto
    with Some q show ?thesis by (simp add: update_old lookup_def)
  qed
qed

lemma store_ok_update:
  assumes "store_ok st"
  shows "store_ok (updateConversationContext U trav now userID message st)"
proof (cases "conversationHistory st userID")
  case None
  with assms show ?thesis
    by (auto simp: update_new store_ok_def less_Suc_eq)
next
  case (Some p)
  with assms show ?thesis
    by (auto simp: update_old store_ok_def)
qed

lemma store_ok_init: "store_ok init_state"
  by (simp add: store_ok_def init_state_def)

lemma run_updates_snoc:
  "run_updates U (hist @ [(trav, now, userID, message)]) st =
     updateConversationContext U trav now userID message (run_updates U hist st)"
  by (induction hist st rule: run_updates.induct) simp_all

lemma store_ok_run_updates: "store_ok st \<Longrightarrow> store_ok (run_updates U hist st)"
  by (induction hist st rule: run_updates.induct) (simp_all add: store_ok_update)

lemma entries_of_snoc:
  "entries_of u (hist @ [(trav, now, userID, message)]) =
     (if userID = u then entries_of u hist @ [(trav, now, userID, message)] else entries_of u hist)"
  by (simp add: entries_of_def)

lemma tags_of_snoc:
  "tags_of U (es @ [(trav, now, userID, message)]) = tags_of U es @ extractTopics U trav message"
  by (simp add: tags_of_def)

lemma lookup_init: "lookup init_state u = None"
  by (simp add: lookup_def init_state_def)

text \<open>The store after a run of updates, user by user.\<close>

lemma lookup_run_updates:
  "lookup (run_updates U hist init_state) u =
     (case entries_of u hist of
        [] \<Rightarrow> None
      | e # es \<Rightarrow>
          (case last (e # es) of (trav, now, userID, message) \<Rightarrow>
             Some \<lparr>UserID = u, LastMessage = message, MessageCount = of_nat (length (e # es)),
                   Topics = dedup_first_seen (tags_of U (e # es)), Timestamp = now\<rparr>))"
proof (induction hist rule: rev_induct)
  case Nil
  then show ?case by (simp add: lookup_init entries_of_def)
next
  case (snoc x hist)
  obtain trav now userID message where x: "x = (trav, now, userID, message)"
    by (cases x) auto
  let ?st = "run_updates U hist init_state"
  have ok: "store_ok ?st" by (rule store_ok_run_updates [OF store_ok_init])
  show ?case
  proof (cases "userID = u")
    case False
    then have "lookup (run_updates U (hist @ [x]) init_state) u = lookup ?st u"
      unfolding x run_updates_snoc using ok by (simp add: lookup_update_other)
    with False snoc.IH show ?thesis by (simp add: x entries_of_snoc)
  next
    case True
    show ?thesis
    proof (cases "entries_of u hist")
      case Nil
      with snoc.IH have "lookup ?st u = None" by simp
      then have "lookup (run_updates U (hist @ [x]) init_state) u =
          Some \<lparr>UserID = u, LastMessage = message, MessageCount = 1,
                Topics = dedup_first_seen (extractTopics U trav message), Timestamp = now\<rparr>"
        unfolding x run_updates_snoc True by (rule lookup_update_new)
      with Nil True show ?thesis by (simp add: x entries_of_snoc tags_of_def)
    next
      case (Cons e es)
      obtain trav0 now0 userID0 message0 where l: "last (e # es) = (trav0, now0, userID0, message0)"
        by (cases "last (e # es)") auto
      let ?c = "\<lparr>UserID = u, LastMessage = message0, MessageCount = of_nat (length (e # es)),
                   Topics = dedup_first_seen (tags_of U (e # es)), Timestamp = now0\<rparr>"
      from snoc.IH Cons l have "lookup ?st u = Some ?c" by simp
      then have "lookup (run_updates U (hist @ [x]) init_state) u =
          Some (?c\<lparr>LastMessage := message, MessageCount := MessageCount ?c + 1, Timestamp := now,
                   Topics := add_topics (Topics ?c) (extractTopics U trav message)\<rparr>)"
        unfolding x run_updates_snoc True by (rule lookup_update_old)
      moreover have "entries_of u (hist @ [x]) = (e # es) @ [x]"
        using True Cons by (simp add: x entries_of_snoc)
      moreover have "tags_of U ((e # es) @ [x]) = tags_of U (e # es) @ extractTopics U trav message"
        unfolding x by (rule tags_of_snoc)
      ultimately show ?thesis
        by (simp add: x add_topics_dedup_append)
    qed
  qed
qed

section \<open>Updates of the store\<close>

text \<open>
  Claim C3. For a user id that the store does not hold, the first update creates a context
  with \<open>MessageCount = 1\<close>, and a second update yields \<open>MessageCount = 2\<close> and the
  topics of both messages, deduplicated, in first-seen order. (The two texts need not
  differ, and the traversal orders of the two calls are arbitrary.)
\<close>

theorem first_two_updates:
  assumes "lookup st userID = None"
  shows "lookup (updateConversationContext U trav1 now1 userID m1 st) userID =
           Some \<lparr>UserID = userID, LastMessage = m1, MessageCount = 1,
                 Topics = dedup_first_seen (extractTopics U trav1 m1), Timestamp = now1\<rparr>
       \<and> lookup (updateConversationContext U trav2 now2 userID m2
                   (updateConversationContext U trav1 now1 userID m1 st)) userID =
           Some \<lparr>UserID = userID, LastMessage = m2, MessageCount = 2,
                 Topics = dedup_first_seen (extractTopics U trav1 m1 @ extractTopics U trav2 m2),
                 Timestamp = now2\<rparr>"
proof -
  let ?st1 = "updateConversationContext U trav1 now1 userID m1 st"
  let ?c1 = "\<lparr>UserID = userID, LastMessage = m1, MessageCount = 1,
               Topics = dedup_first_seen (extractTopics U trav1 m1), Timestamp = now1\<rparr>"
  have one: "lookup ?st1 userID = Some ?c1"
    using assms by (rule lookup_update_new)
  have "lookup (updateConversationContext U trav2 now2 userID m2 ?st1) userID =
          Some (?c1\<lparr>LastMessage := m2, MessageCount := MessageCount ?c1 + 1, Timestamp := now2,
                     Topics := add_topics (Topics ?c1) (extractTopics U trav2 m2)\<rparr>)"
    using one by (rule lookup_update_old)
  then show ?thesis
    using one by (simp add: add_topics_dedup_append)
qed

theorem first_two_updates_witness:
  "lookup init_state ''alice'' = None
   \<and> lookup (updateConversationContext sample_tables (rev keywords_tbl) 7 ''alice'' ''help me go''
              (updateConversationContext sample_tables keywords_tbl 5 ''alice'' ''How to code in Python'' init_state))
        ''alice'' =
      Some \<lparr>UserID = ''alice'', LastMessage = ''help me go'', MessageCount = 2,
            Topics = [''programming'', ''tutorial'', ''support''], Timestamp = 7\<rparr>"
proof -
  have n: "lookup init_state ''alice'' = None" by (rule lookup_init)
  have t: "dedup_first_seen (extractTopics sample_tables keywords_tbl ''How to code in Python''
             @ extractTopics sample_tables (rev keywords_tbl) ''help me go'')
           = [''programming'', ''tutorial'', ''support'']"
    by code_simp
  show ?thesis
    using n first_two_updates [OF n, where U = sample_tables and ?trav1.0 = keywords_tbl and ?now1.0 = 5
        and ?m1.0 = "''How to code in Python''" and ?trav2.0 = "rev keywords_tbl" and ?now2.0 = 7
        and ?m2.0 = "''help me go''"]
    unfolding t by simp
qed

text \<open>
  Claim C7. After every run of updates from the empty store, the topics of every stored
  context have no duplicates and stand in the order of their first appearance: they are
  the tags extracted from that user's messages, oldest first, each kept at its first
  occurrence. A further update keeps the stored topics as a prefix of the new ones.
\<close>

theorem topics_invariant:
  fixes U :: unicode_tables
    and hist :: "((string \<times> string) list \<times> time \<times> string \<times> string) list"
  defines "st \<equiv> run_updates U hist init_state"
  shows "\<forall>c. lookup st u = Some c \<longrightarrow>
           distinct (Topics c)
         \<and> Topics c = dedup_first_seen (tags_of U (entries_of u hist))
         \<and> (\<exists>c'. lookup (updateConversationContext U trav now userID message st) u = Some c'
                  \<and> prefix (Topics c) (Topics c'))"
proof (intro allI impI)
  fix c assume c: "lookup st u = Some c"
  have ok: "store_ok st"
    unfolding st_def by (rule store_ok_run_updates [OF store_ok_init])
  from c have t: "Topics c = dedup_first_seen (tags_of U (entries_of u hist))"
    unfolding st_def lookup_run_updates by (auto split: list.splits prod.splits)
  have p: "\<exists>c'. lookup (updateConversationContext U trav now userID message st) u = Some c'
                \<and> prefix (Topics c) (Topics c')"
  proof (cases "u = userID")
    case True
    with c have "lookup (updateConversationContext U trav now userID message st) u =
        Some (c\<lparr>LastMessage := message, MessageCount := MessageCount c + 1, Timestamp := now,
                Topics := add_topics (Topics c) (extractTopics U trav message)\<rparr>)"
      by (simp add: lookup_update_old)
    then show ?thesis by (simp add: add_topics_prefix)
  next
    case False
    with ok c show ?thesis by (simp add: lookup_update_other)
  qed
  from t p show "distinct (Topics c)
         \<and> Topics c = dedup_first_seen (tags_of U (entries_of u hist))
         \<and> (\<exists>c'. lookup (updateConversationContext U trav now userID message st) u = Some c'
                  \<and> prefix (Topics c) (Topics c'))"
    by (simp add: distinct_dedup_first_seen)
qed

theorem topics_invariant_witness:
  "lookup (run_updates sample_tables [(keywords_tbl, 1, ''alice'', ''Python code''),
                        (keywords_tbl, 2, ''bob'', ''weather?''),
                        (rev keywords_tbl, 3, ''alice'', ''help with go code'')] init_state) ''alice''
     = Some \<lparr>UserID = ''alice'', LastMessage = ''help with go code'', MessageCount = 2,
             Topics = [''programming'', ''support''], Timestamp = 3\<rparr>
   \<and> distinct (Topics \<lparr>UserID = ''alice'', LastMessage = ''help with go code'', MessageCount = 2,
             Topics = [''programming'', ''support''], Timestamp = 3\<rparr>)"
proof -
  let ?hist = "[(keywords_tbl, 1, ''alice'', ''Python code''),
                (keywords_tbl, 2, ''bob'', ''weather?''),
                (rev keywords_tbl, 3, ''alice'', ''help with go code'')]"
  let ?c = "\<lparr>UserID = ''alice'', LastMessage = ''help with go code'', MessageCount = 2,
             Topics = [''programming'', ''support''], Timestamp = 3\<rparr>"
  have t: "dedup_first_seen (extractTopics sample_tables keywords_tbl ''Python code''
             @ extractTopics sample_tables (rev keywords_tbl) ''help with go code'') = [''programming'', ''support'']"
    by code_simp
  have l: "lookup (run_updates sample_tables ?hist init_state) ''alice'' = Some ?c"
    unfolding lookup_run_updates by (simp add: entries_of_def tags_of_def t)
  from topics_invariant [where U = sample_tables and hist = ?hist and u = "''alice''", rule_format, OF l]
  have "distinct (Topics ?c)" by (rule conjunct1)
  with l show ?thesis by (rule conjI)
qed

text \<open>
  Claim C10. In every store reached by updates from the empty one, the update for a user
  \<open>u\<close> leaves the context of every other user as it was, present or absent, and the
  context of \<open>u\<close> has \<open>UserID = u\<close>.
\<close>

theorem update_frame:
  fixes U :: unicode_tables
    and hist :: "((string \<times> string) list \<times> time \<times> string \<times> string) list"
  defines "st \<equiv> run_updates U hist init_state"
  shows "(\<forall>v. v \<noteq> u \<longrightarrow> lookup (updateConversationContext U trav now u m st) v = lookup st v)
       \<and> (\<exists>c. lookup (updateConversationContext U trav now u m st) u = Some c \<and> UserID c = u)"
proof -
  have ok: "store_ok st"
    unfolding st_def by (rule store_ok_run_updates [OF store_ok_init])
  have "updateConversationContext U trav now u m st = run_updates U (hist @ [(trav, now, u, m)]) init_state"
    by (simp add: st_def run_updates_snoc)
  moreover have "entries_of u (hist @ [(trav, now, u, m)]) \<noteq> []"
    by (simp add: entries_of_snoc)
  ultimately have "\<exists>c. lookup (updateConversationContext U trav now u m st) u = Some c \<and> UserID c = u"
    by (simp only: lookup_run_updates) (auto split: list.splits prod.splits)
  then show ?thesis
    using ok by (simp add: lookup_update_other)
qed

theorem update_frame_witness:
  "''alice'' \<noteq> ''bob''
   \<and> lookup (updateConversationContext sample_tables keywords_tbl 9 ''bob'' ''how is the weather''
        (run_updates sample_tables [(keywords_tbl, 1, ''alice'', ''Python code''),
                      (keywords_tbl, 2, ''bob'', ''weather?'')] init_state)) ''alice''
     = lookup (run_updates sample_tables [(keywords_tbl, 1, ''alice'', ''Python code''),
                            (keywords_tbl, 2, ''bob'', ''weather?'')] init_state) ''alice''
   \<and> lookup (run_updates sample_tables [(keywords_tbl, 1, ''alice'', ''Python code''),
                            (keywords_tbl, 2, ''bob'', ''weather?'')] init_state) ''alice'' \<noteq> None"
proof -
  let ?hist = "[(keywords_tbl, 1, ''alice'', ''Python code''), (keywords_tbl, 2, ''bob'', ''weather?'')]"
  have ne: "''alice'' \<noteq> ''bob''" by simp
  have l: "lookup (run_updates sample_tables ?hist init_state) ''alice'' \<noteq> None"
    unfolding lookup_run_updates by (simp add: entries_of_def)
  have eq: "lookup (updateConversationContext sample_tables keywords_tbl 9 ''bob'' ''how is the weather''
                    (run_updates sample_tables ?hist init_state)) ''alice'' = lookup (run_updates sample_tables ?hist init_state) ''alice''"
    by (rule update_frame [where U = sample_tables and u = "''bob''" and trav = keywords_tbl and now = 9
                           and m = "''how is the weather''" and hist = ?hist,
                           THEN conjunct1, rule_format, OF ne])
  show ?thesis
    by (rule conjI [OF ne conjI [OF eq l]])
qed

section \<open>Facts about the prompt\<close>

lemma format_d_3: "format_d 3 = ''3''"
  by code_simp

lemma format_d_examples: "format_d 12 = ''12'' \<and> format_d 1024 = ''1024'' \<and> format_d (- 7) = ''-7''"
  by code_simp

text \<open>
  Claim C5. For a context with \<open>MessageCount > 0\<close> and topics, the prompt contains the
  turn-number annotation with that count and the stored topics joined by a comma and a
  space; with \<open>MessageCount = 3\<close> and the topics \<open>programming\<close> and \<open>support\<close> it contains
  \<open>message #3\<close> and \<open>programming, support\<close>. Without a context, or with a count that is
  not above zero, the prompt is the preamble, the instruction and the message, and nothing
  else.
\<close>

theorem buildContextPrompt_annotations:
  fixes c :: ConversationContext and message :: string
  defines "P \<equiv> buildContextPrompt (Some c) message"
  shows "(0 <s MessageCount c \<and> Topics c \<noteq> [] \<longrightarrow>
            Contains P (''This is message #'' @ format_d (MessageCount c) @ '' in the conversation. '')
          \<and> Contains P (''Previous topics discussed: '' @ Join (Topics c) '', '' @ ''. ''))
       \<and> (MessageCount c = 3 \<and> Topics c = [''programming'', ''support''] \<longrightarrow>
            Contains P ''message #3'' \<and> Contains P ''programming, support'')
       \<and> (\<not> 0 <s MessageCount c \<longrightarrow>
            P = ''You are a helpful AI assistant integrated with Telex.im messaging platform. ''
              @ ''Respond naturally and helpfully to the following message:'' @ [CHR 0x0A, CHR 0x0A]
              @ message)
       \<and> buildContextPrompt None message =
            ''You are a helpful AI assistant integrated with Telex.im messaging platform. ''
              @ ''Respond naturally and helpfully to the following message:'' @ [CHR 0x0A, CHR 0x0A]
              @ message"
proof -
  define pre where "pre = ''You are a helpful AI assistant integrated with Telex.im messaging platform. ''"
  define ins where "ins = ''Respond naturally and helpfully to the following message:'' @ [CHR 0x0A, CHR 0x0A]"
  have full: "P = pre @ (''This is message #'' @ format_d (MessageCount c) @ '' in the conversation. '')
                  @ (''Previous topics discussed: '' @ Join (Topics c) '', '' @ ''. '') @ ins @ message"
    if "0 <s MessageCount c" "Topics c \<noteq> []"
    using that by (simp add: P_def buildContextPrompt_def pre_def ins_def)
  have a1: "Contains P (''This is message #'' @ format_d (MessageCount c) @ '' in the conversation. '')"
    if "0 <s MessageCount c" "Topics c \<noteq> []"
    by (rule ContainsI [where ps = pre]) (simp only: full [OF that] append_assoc)
  have a2: "Contains P (''Previous topics discussed: '' @ Join (Topics c) '', '' @ ''. '')"
    if "0 <s MessageCount c" "Topics c \<noteq> []"
    by (rule ContainsI [where ps = "pre @ ''This is message #'' @ format_d (MessageCount c) @ '' in the conversation. ''"])
       (simp only: full [OF that] append_assoc)
  have b: "Contains P ''message #3'' \<and> Contains P ''programming, support''"
    if m: "MessageCount c = 3" and t: "Topics c = [''programming'', ''support'']"
  proof -
    have pos: "0 <s MessageCount c" by (simp add: m word_sless_alt)
    have ne: "Topics c \<noteq> []" by (simp add: t)
    have f: "P = pre @ ''This is message #3 in the conversation. ''
                   @ ''Previous topics discussed: programming, support. '' @ ins @ message"
      by (simp add: full [OF pos ne] m t format_d_3)
    have "Contains P ''message #3''"
      by (rule ContainsI [where ps = "pre @ ''This is ''"
            and ss = "'' in the conversation. '' @ ''Previous topics discussed: programming, support. '' @ ins @ message"])
         (simp add: f)
    moreover have "Contains P ''programming, support''"
      by (rule ContainsI [where ps = "pre @ ''This is message #3 in the conversation. '' @ ''Previous topics discussed: ''"
            and ss = "''. '' @ ins @ message"])
         (simp add: f)
    ultimately show ?thesis by simp
  qed
  have z: "P = pre @ ins @ message" if "\<not> 0 <s MessageCount c"
    using that by (simp add: P_def buildContextPrompt_def pre_def ins_def)
  have n: "buildContextPrompt None message = pre @ ins @ message"
    by (simp add: buildContextPrompt_def pre_def ins_def)
  from a1 a2 b z n show ?thesis
    unfolding pre_def ins_def by simp
qed

theorem buildContextPrompt_annotations_witness:
  "MessageCount \<lparr>UserID = ''u1'', LastMessage = ''and go?'', MessageCount = 3,
                  Topics = [''programming'', ''support''], Timestamp = 4\<rparr> = 3
   \<and> Contains (buildContextPrompt (Some \<lparr>UserID = ''u1'', LastMessage = ''and go?'', MessageCount = 3,
                  Topics = [''programming'', ''support''], Timestamp = 4\<rparr>) ''and go?'') ''message #3''
   \<and> Contains (buildContextPrompt (Some \<lparr>UserID = ''u1'', LastMessage = ''and go?'', MessageCount = 3,
                  Topics = [''programming'', ''support''], Timestamp = 4\<rparr>) ''and go?'') ''programming, support''"
proof -
  let ?c = "\<lparr>UserID = ''u1'', LastMessage = ''and go?'', MessageCount = 3,
                  Topics = [''programming'', ''support''], Timestamp = 4\<rparr>"
  have m: "MessageCount ?c = 3" by simp
  have t: "Topics ?c = [''programming'', ''support'']" by simp
  from buildContextPrompt_annotations [of ?c "''and go?''"]
  have "MessageCount ?c = 3 \<and> Topics ?c = [''programming'', ''support''] \<longrightarrow>
          Contains (buildContextPrompt (Some ?c) ''and go?'') ''message #3''
        \<and> Contains (buildContextPrompt (Some ?c) ''and go?'') ''programming, support''"
    by (rule conjunct2 [THEN conjunct1])
  then have "Contains (buildContextPrompt (Some ?c) ''and go?'') ''message #3''
        \<and> Contains (buildContextPrompt (Some ?c) ''and go?'') ''programming, support''"
    using m t by (rule mp [OF _ conjI])
  with m show ?thesis by (rule conjI)
qed

section \<open>The webhook\<close>

text \<open>
  Claim C9. A webhook request whose \<open>Authorization\<close> header is not the expected bearer
  secret is answered with 401, and an authorized request whose body does not parse with
  400; both leave the whole state, and so every conversation context, as it was.
\<close>

theorem webhook_rejects_before_processing:
  "(authHeader \<noteq> ''Bearer '' @ telexAPIKey cfg \<longrightarrow>
      handleTelexWebhook U w cfg authHeader bound st =
        ((401, JSON_TelexResponse \<lparr>Status = ''error'', Message = ''Unauthorized''\<rparr>), st))
 \<and> (authHeader = ''Bearer '' @ telexAPIKey cfg \<longrightarrow>
      handleTelexWebhook U w cfg authHeader (Inl err) st =
        ((400, JSON_TelexResponse \<lparr>Status = ''error'', Message = ''Invalid payload''\<rparr>), st))"
  by (simp add: handleTelexWebhook_def)

theorem webhook_rejects_before_processing_witness:
  "''Bearer wrong_key'' \<noteq> ''Bearer '' @ telexAPIKey demo_config
   \<and> handleTelexWebhook sample_tables world_echo demo_config ''Bearer wrong_key''
        (Inr \<lparr>Event = ''message.received'',
              Message_wh = \<lparr>ID = [], From = ''test'', To = [], Content = ''test'',
                             Timestamp_msg = 0, Type = []\<rparr>,
              User = \<lparr>ID_user = [], Username = [], Name = []\<rparr>\<rparr>) init_state =
        ((401, JSON_TelexResponse \<lparr>Status = ''error'', Message = ''Unauthorized''\<rparr>), init_state)
   \<and> ''Bearer test_key_123'' = ''Bearer '' @ telexAPIKey demo_config
   \<and> handleTelexWebhook sample_tables world_echo demo_config ''Bearer test_key_123'' (Inl ''EOF'') init_state =
        ((400, JSON_TelexResponse \<lparr>Status = ''error'', Message = ''Invalid payload''\<rparr>), init_state)"
proof -
  have a: "''Bearer wrong_key'' \<noteq> ''Bearer '' @ telexAPIKey demo_config"
    by (simp add: demo_config_def)
  have b: "''Bearer test_key_123'' = ''Bearer '' @ telexAPIKey demo_config"
    by (simp add: demo_config_def)
  note r1 = webhook_rejects_before_processing [THEN conjunct1, rule_format, OF a]
  note r2 = webhook_rejects_before_processing [THEN conjunct2, rule_format, OF b]
  show ?thesis
    by (rule conjI [OF a conjI [OF r1 conjI [OF b r2]]])
qed

section \<open>Failure of the completion call\<close>

lemma callGroqAPI_fails:
  "(groq w prompt = GroqFailed err \<longrightarrow> callGroqAPI w prompt = Inl err)
 \<and> (groq w prompt = GroqResponse statusCode body choices \<and> statusCode \<noteq> 200 \<longrightarrow>
       callGroqAPI w prompt = Inl (''groq API error: '' @ body))
 \<and> (groq w prompt = GroqResponse 200 body (Inl err) \<longrightarrow> callGroqAPI w prompt = Inl err)
 \<and> (groq w prompt = GroqResponse 200 body (Inr []) \<longrightarrow>
       callGroqAPI w prompt = Inl ''empty response from Groq'')"
  by (simp add: callGroqAPI_def)

lemma callGroqAPI_Inl_iff:
  "(\<exists>err. callGroqAPI w prompt = Inl err) \<longleftrightarrow>
     (case groq w prompt of
        GroqFailed err \<Rightarrow> True
      | GroqResponse statusCode body choices \<Rightarrow>
          statusCode \<noteq> 200 \<or> (case choices of Inl err \<Rightarrow> True | Inr cs \<Rightarrow> cs = []))"
  by (auto simp: callGroqAPI_def split: groq_result.splits sum.splits list.splits)

text \<open>
  Claim C1, as amended. The completion call fails when the request fails, when the status
  is not 200, when the body does not decode, or when there are no choices. On the webhook
  path, for a message that is not the agent's own, such a failure makes the reply the
  fixed apology with confidence 0.0; the apology is what is relayed to the sender, and
  the response is 200 when the relay succeeds and 500 only when the relay fails. The
  direct-message endpoint has no fallback: it answers the failure with 500 and the error.
\<close>

theorem completion_failure_handling:
  fixes U :: unicode_tables and w :: world and cfg :: config and msg :: TelexMessage and req :: direct_request
    and st :: state
  defines "st1 \<equiv> updateConversationContext U (traversal w) (clock w) (From msg) (Content msg) st"
  defines "st2 \<equiv> updateConversationContext U (traversal w) (clock w) (req_UserID req) (req_Message req) st"
  shows "(\<forall>prompt. (\<exists>err. callGroqAPI w prompt = Inl err) \<longleftrightarrow>
            (case groq w prompt of
               GroqFailed err \<Rightarrow> True
             | GroqResponse statusCode body choices \<Rightarrow>
                 statusCode \<noteq> 200 \<or> (case choices of Inl err \<Rightarrow> True | Inr cs \<Rightarrow> cs = [])))
       \<and> (From msg \<noteq> agentID cfg
            \<and> callGroqAPI w (buildContextPrompt (lookup st1 (From msg)) (Content msg)) = Inl err \<longrightarrow>
            incoming_agentReply U w st1 msg =
              \<lparr>Reply = apology, Intent = [], Entities = Map.empty, Confidence = 0\<rparr>
          \<and> handleIncomingMessage U w cfg msg st =
              (case sendTelexMessage w cfg (From msg) apology of
                 None \<Rightarrow>
                   ((200, JSON_TelexResponse \<lparr>Status = ''success'', Message = ''Message processed''\<rparr>), st1)
               | Some e \<Rightarrow>
                   ((500, JSON_TelexResponse \<lparr>Status = ''error'', Message = ''Failed to send response''\<rparr>), st1)))
       \<and> (callGroqAPI w (buildContextPrompt (lookup st2 (req_UserID req)) (req_Message req)) = Inl err \<longrightarrow>
            handleDirectMessage U w (Inr req) st = ((500, JSON_error err), st2))"
proof -
  have a: "incoming_agentReply U w st1 msg =
              \<lparr>Reply = apology, Intent = [], Entities = Map.empty, Confidence = 0\<rparr>"
    if "callGroqAPI w (buildContextPrompt (lookup st1 (From msg)) (Content msg)) = Inl err"
    using that by (simp add: incoming_agentReply_def generateAIResponse_def)
  have b: "handleIncomingMessage U w cfg msg st =
              (case sendTelexMessage w cfg (From msg) apology of
                 None \<Rightarrow>
                   ((200, JSON_TelexResponse \<lparr>Status = ''success'', Message = ''Message processed''\<rparr>), st1)
               | Some e \<Rightarrow>
                   ((500, JSON_TelexResponse \<lparr>Status = ''error'', Message = ''Failed to send response''\<rparr>), st1))"
    if "From msg \<noteq> agentID cfg"
      and f: "callGroqAPI w (buildContextPrompt (lookup st1 (From msg)) (Content msg)) = Inl err"
  proof -
    have "handleIncomingMessage U w cfg msg st =
            (case sendTelexMessage w cfg (From msg) (Reply (incoming_agentReply U w st1 msg)) of
               Some err \<Rightarrow>
                 ((500, JSON_TelexResponse \<lparr>Status = ''error'', Message = ''Failed to send response''\<rparr>), st1)
             | None \<Rightarrow>
                 ((200, JSON_TelexResponse \<lparr>Status = ''success'', Message = ''Message processed''\<rparr>), st1))"
      unfolding st1_def using that(1) by (simp add: handleIncomingMessage_def Let_def)
    then show ?thesis
      by (simp add: a [OF f] split: option.splits)
  qed
  have c: "handleDirectMessage U w (Inr req) st = ((500, JSON_error err), st2)"
    if "callGroqAPI w (buildContextPrompt (lookup st2 (req_UserID req)) (req_Message req)) = Inl err"
    using that by (simp add: handleDirectMessage_def generateAIResponse_def st2_def Let_def)
  show ?thesis
    using a b c callGroqAPI_Inl_iff by simp
qed

lemma callGroqAPI_world_down:
  "callGroqAPI world_down prompt = Inl ''groq API error: upstream unavailable''"
  by (simp add: callGroqAPI_def world_down_def groq_down_def)

lemma sendTelexMessage_world_down: "sendTelexMessage world_down cfg toUserID content = None"
  by (simp add: sendTelexMessage_def world_down_def telex_up_def)

theorem completion_failure_handling_witness:
  "From \<lparr>ID = ''msg_demo_001'', From = ''webhook_user_001'', To = ''ai-agent-001'',
          Content = ''This is a test message'', Timestamp_msg = 0, Type = []\<rparr> \<noteq> agentID demo_config
   \<and> handleIncomingMessage sample_tables world_down demo_config
        \<lparr>ID = ''msg_demo_001'', From = ''webhook_user_001'', To = ''ai-agent-001'',
          Content = ''This is a test message'', Timestamp_msg = 0, Type = []\<rparr> init_state =
       ((200, JSON_TelexResponse \<lparr>Status = ''success'', Message = ''Message processed''\<rparr>),
        updateConversationContext sample_tables (traversal world_down) (clock world_down) ''webhook_user_001''
          ''This is a test message'' init_state)"
proof -
  let ?msg = "\<lparr>ID = ''msg_demo_001'', From = ''webhook_user_001'', To = ''ai-agent-001'',
          Content = ''This is a test message'', Timestamp_msg = 0, Type = []\<rparr>"
  have a: "From ?msg \<noteq> agentID demo_config"
    by (simp add: demo_config_def)
  note f = callGroqAPI_world_down
  note r = completion_failure_handling [where U = sample_tables and w = world_down and cfg = demo_config
      and msg = ?msg and st = init_state,
      THEN conjunct2, THEN conjunct1, rule_format, OF conjI [OF a f], THEN conjunct2]
  have "handleIncomingMessage sample_tables world_down demo_config ?msg init_state =
       ((200, JSON_TelexResponse \<lparr>Status = ''success'', Message = ''Message processed''\<rparr>),
        updateConversationContext sample_tables (traversal world_down) (clock world_down) ''webhook_user_001''
          ''This is a test message'' init_state)"
    unfolding r by (simp add: sendTelexMessage_world_down)
  with a show ?thesis by (rule conjI)
qed

text \<open>
  Claim C1 as stated fails on the direct-message endpoint: with the completion API down,
  the caller gets status 500 and the error text, not the apology.
\<close>

theorem direct_message_failure_counterexample:
  "fst (handleDirectMessage sample_tables world_down
          (Inr \<lparr>req_UserID = ''demo_user_001'', req_Message = ''Hello!''\<rparr>) init_state) =
     (500, JSON_error ''groq API error: upstream unavailable'')"
  by (simp add: handleDirectMessage_def generateAIResponse_def callGroqAPI_world_down Let_def)

section \<open>The prompt of a handled message\<close>

lemma sint_of_nat_small:
  assumes "n < 2 ^ 63"
  shows "sint (of_nat n :: 64 word) = int n"
proof -
  have "sint (of_nat n :: 64 word) = sint (word_of_int (int n) :: 64 word)" by simp
  also have "\<dots> = signed_take_bit 63 (int n)" by (simp only: sint_sbintrunc') simp
  also have "\<dots> = int n"
  proof (rule signed_take_bit_int_eq_self)
    show "- (2 ^ 63) \<le> int n" by simp
    from assms have "int n < int (2 ^ 63)" by (simp only: of_nat_less_iff)
    then show "int n < 2 ^ 63" by simp
  qed
  finally show ?thesis .
qed

lemma length_entries_of: "length (entries_of u hist) \<le> length hist"
  by (simp add: entries_of_def)

lemma lookup_after_update:
  "lookup (updateConversationContext U trav now u m (run_updates U hist init_state)) u =
     Some \<lparr>UserID = u, LastMessage = m, MessageCount = of_nat (Suc (length (entries_of u hist))),
           Topics = dedup_first_seen (tags_of U (entries_of u hist) @ extractTopics U trav m),
           Timestamp = now\<rparr>"
proof -
  have "updateConversationContext U trav now u m (run_updates U hist init_state) =
          run_updates U (hist @ [(trav, now, u, m)]) init_state"
    by (simp add: run_updates_snoc)
  moreover have "entries_of u (hist @ [(trav, now, u, m)]) = entries_of u hist @ [(trav, now, u, m)]"
    by (simp add: entries_of_snoc)
  ultimately show ?thesis
    by (cases "entries_of u hist") (simp_all add: lookup_run_updates tags_of_snoc tags_of_def)
qed

lemma prompt_annotation:
  assumes "0 <s MessageCount c"
  shows "Contains (buildContextPrompt (Some c) m)
           (''This is message #'' @ format_d (MessageCount c) @ '' in the conversation. '')"
proof (cases "Topics c = []")
  case True
  show ?thesis
    by (rule ContainsI [where
          ps = "''You are a helpful AI assistant integrated with Telex.im messaging platform. ''"
          and ss = "''Respond naturally and helpfully to the following message:'' @ [CHR 0x0A, CHR 0x0A] @ m"])
       (use assms True in \<open>simp add: buildContextPrompt_def\<close>)
next
  case False
  show ?thesis
    by (rule ContainsI [where
          ps = "''You are a helpful AI assistant integrated with Telex.im messaging platform. ''"
          and ss = "''Previous topics discussed: '' @ Join (Topics c) '', '' @ ''. ''
                    @ ''Respond naturally and helpfully to the following message:'' @ [CHR 0x0A, CHR 0x0A] @ m"])
       (use assms False in \<open>simp add: buildContextPrompt_def\<close>)
qed

lemma prompt_topics:
  assumes "0 <s MessageCount c" and "Topics c \<noteq> []"
  shows "Contains (buildContextPrompt (Some c) m)
           (''Previous topics discussed: '' @ Join (Topics c) '', '' @ ''. '')"
  by (rule ContainsI [where
        ps = "''You are a helpful AI assistant integrated with Telex.im messaging platform. ''
              @ ''This is message #'' @ format_d (MessageCount c) @ '' in the conversation. ''"
        and ss = "''Respond naturally and helpfully to the following message:'' @ [CHR 0x0A, CHR 0x0A] @ m"])
     (use assms in \<open>simp add: buildContextPrompt_def\<close>)

text \<open>
  Claim C6. When a message is handled, the prompt sent to the completion API is built
  from the context as the update for this message has left it: the context \<open>c\<close> below,
  whose count is the stored count plus one (one for a new user) and whose topics hold the
  tags extracted from this message. Both handlers call the completion API with exactly
  this prompt: the answer of the direct-message endpoint, and on the webhook path the
  reply relayed to the sender and with it the response, are those that the completion of
  this prompt gives. Within the range of the counter, that is in a store reached by fewer than
  \<open>2^63 - 1\<close> updates, the count is the number of this user's earlier messages plus
  one, the prompt reports it, and the prompt lists the topics when the message has any.
\<close>

theorem prompt_built_after_update:
  fixes U :: unicode_tables
    and hist :: "((string \<times> string) list \<times> time \<times> string \<times> string) list"
    and w :: world and u m :: string
  defines "st \<equiv> run_updates U hist init_state"
  defines "st1 \<equiv> updateConversationContext U (traversal w) (clock w) u m st"
  defines "c \<equiv> \<lparr>UserID = u, LastMessage = m,
                  MessageCount = of_nat (Suc (length (entries_of u hist))),
                  Topics = dedup_first_seen (tags_of U (entries_of u hist) @ extractTopics U (traversal w) m),
                  Timestamp = clock w\<rparr>"
  defines "prompt \<equiv> buildContextPrompt (Some c) m"
  shows "lookup st1 u = Some c
       \<and> (case lookup st u of None \<Rightarrow> MessageCount c = 1
           | Some c0 \<Rightarrow> MessageCount c = MessageCount c0 + 1)
       \<and> set (extractTopics U (traversal w) m) \<subseteq> set (Topics c)
       \<and> (length hist < 2 ^ 63 - 1 \<longrightarrow>
            sint (MessageCount c) = int (length (entries_of u hist)) + 1
          \<and> Contains prompt (''This is message #'' @ format_d (MessageCount c) @ '' in the conversation. '')
          \<and> (extractTopics U (traversal w) m \<noteq> [] \<longrightarrow>
               Contains prompt (''Previous topics discussed: '' @ Join (Topics c) '', '' @ ''. '')))
       \<and> generateAIResponse U w st1 u m =
            (case callGroqAPI w prompt of
               Inl err \<Rightarrow> Inl err
             | Inr groqResp \<Rightarrow>
                 Inr \<lparr>Reply = groqResp, Intent = extractIntent U m,
                      Entities = extractEntities U m, Confidence = 0.90\<rparr>)
       \<and> handleDirectMessage U w (Inr \<lparr>req_UserID = u, req_Message = m\<rparr>) st =
            (case callGroqAPI w prompt of
               Inl err \<Rightarrow> ((500, JSON_error err), st1)
             | Inr groqResp \<Rightarrow>
                 ((200, JSON_AgentResponse \<lparr>Reply = groqResp, Intent = extractIntent U m,
                      Entities = extractEntities U m, Confidence = 0.90\<rparr>), st1))
       \<and> (\<forall>msg. From msg = u \<and> Content msg = m \<and> u \<noteq> agentID cfg \<longrightarrow>
            snd (handleIncomingMessage U w cfg msg st) = st1
          \<and> incoming_agentReply U w st1 msg =
              (case callGroqAPI w prompt of
                 Inl err \<Rightarrow> \<lparr>Reply = apology, Intent = [], Entities = Map.empty, Confidence = 0\<rparr>
               | Inr groqResp \<Rightarrow>
                   \<lparr>Reply = groqResp, Intent = extractIntent U m,
                    Entities = extractEntities U m, Confidence = 0.90\<rparr>)
          \<and> handleIncomingMessage U w cfg msg st =
              (case sendTelexMessage w cfg u
                      (case callGroqAPI w prompt of Inl err \<Rightarrow> apology | Inr groqResp \<Rightarrow> groqResp) of
                 Some err \<Rightarrow>
                   ((500, JSON_TelexResponse \<lparr>Status = ''error'', Message = ''Failed to send response''\<rparr>), st1)
               | None \<Rightarrow>
                   ((200, JSON_TelexResponse \<lparr>Status = ''success'', Message = ''Message processed''\<rparr>), st1)))
       \<and> (\<forall>webhook. Event webhook = ''message.received'' \<or> Event webhook = ''message'' \<longrightarrow>
            handleTelexWebhook U w cfg (''Bearer '' @ telexAPIKey cfg) (Inr webhook) st =
              handleIncomingMessage U w cfg (Message_wh webhook) st)"
proof -
  have l: "lookup st1 u = Some c"
    unfolding st1_def st_def c_def by (rule lookup_after_update)
  have inc: "(case lookup st u of None \<Rightarrow> MessageCount c = 1
           | Some c0 \<Rightarrow> MessageCount c = MessageCount c0 + 1)"
    unfolding st_def lookup_run_updates
    by (cases "entries_of u hist") (auto simp: c_def split: prod.splits)
  have sub: "set (extractTopics U (traversal w) m) \<subseteq> set (Topics c)"
    by (simp add: c_def set_dedup_first_seen)
  have r: "sint (MessageCount c) = int (length (entries_of u hist)) + 1
          \<and> Contains prompt (''This is message #'' @ format_d (MessageCount c) @ '' in the conversation. '')
          \<and> (extractTopics U (traversal w) m \<noteq> [] \<longrightarrow>
               Contains prompt (''Previous topics discussed: '' @ Join (Topics c) '', '' @ ''. ''))"
    if bound: "length hist < 2 ^ 63 - 1"
  proof -
    have "Suc (length (entries_of u hist)) \<le> Suc (length hist)"
      by (simp add: length_entries_of)
    also have "\<dots> < 2 ^ 63" using bound by simp
    finally have "sint (of_nat (Suc (length (entries_of u hist))) :: 64 word)
                    = int (Suc (length (entries_of u hist)))"
      by (rule sint_of_nat_small)
    then have s: "sint (MessageCount c) = int (length (entries_of u hist)) + 1"
      by (simp add: c_def)
    then have pos: "0 <s MessageCount c"
      by (simp add: word_sless_alt)
    have a: "Contains prompt (''This is message #'' @ format_d (MessageCount c) @ '' in the conversation. '')"
      unfolding prompt_def using pos by (rule prompt_annotation)
    have t: "Contains prompt (''Previous topics discussed: '' @ Join (Topics c) '', '' @ ''. '')"
      if "extractTopics U (traversal w) m \<noteq> []"
    proof -
      from that sub have "Topics c \<noteq> []" by auto
      with pos show ?thesis unfolding prompt_def by (rule prompt_topics)
    qed
    from s a t show ?thesis by blast
  qed
  have g: "generateAIResponse U w st1 u m =
            (case callGroqAPI w prompt of
               Inl err \<Rightarrow> Inl err
             | Inr groqResp \<Rightarrow>
                 Inr \<lparr>Reply = groqResp, Intent = extractIntent U m,
                      Entities = extractEntities U m, Confidence = 0.90\<rparr>)"
    by (simp add: generateAIResponse_def l prompt_def)
  have d: "handleDirectMessage U w (Inr \<lparr>req_UserID = u, req_Message = m\<rparr>) st =
            (case callGroqAPI w prompt of
               Inl err \<Rightarrow> ((500, JSON_error err), st1)
             | Inr groqResp \<Rightarrow>
                 ((200, JSON_AgentResponse \<lparr>Reply = groqResp, Intent = extractIntent U m,
                      Entities = extractEntities U m, Confidence = 0.90\<rparr>), st1))"
    by (simp add: handleDirectMessage_def Let_def st1_def [symmetric] g split: sum.splits)
  have i: "snd (handleIncomingMessage U w cfg msg st) = st1
          \<and> incoming_agentReply U w st1 msg =
              (case callGroqAPI w prompt of
                 Inl err \<Rightarrow> \<lparr>Reply = apology, Intent = [], Entities = Map.empty, Confidence = 0\<rparr>
               | Inr groqResp \<Rightarrow>
                   \<lparr>Reply = groqResp, Intent = extractIntent U m,
                    Entities = extractEntities U m, Confidence = 0.90\<rparr>)"
    if "From msg = u" "Content msg = m" "u \<noteq> agentID cfg" for msg
  proof
    show "snd (handleIncomingMessage U w cfg msg st) = st1"
      using that by (simp add: handleIncomingMessage_def Let_def st1_def split: option.splits)
    show "incoming_agentReply U w st1 msg =
              (case callGroqAPI w prompt of
                 Inl err \<Rightarrow> \<lparr>Reply = apology, Intent = [], Entities = Map.empty, Confidence = 0\<rparr>
               | Inr groqResp \<Rightarrow>
                   \<lparr>Reply = groqResp, Intent = extractIntent U m,
                    Entities = extractEntities U m, Confidence = 0.90\<rparr>)"
      using that by (simp add: incoming_agentReply_def g split: sum.splits)
  qed
  have j: "handleIncomingMessage U w cfg msg st =
              (case sendTelexMessage w cfg u
                      (case callGroqAPI w prompt of Inl err \<Rightarrow> apology | Inr groqResp \<Rightarrow> groqResp) of
                 Some err \<Rightarrow>
                   ((500, JSON_TelexResponse \<lparr>Status = ''error'', Message = ''Failed to send response''\<rparr>), st1)
               | None \<Rightarrow>
                   ((200, JSON_TelexResponse \<lparr>Status = ''success'', Message = ''Message processed''\<rparr>), st1))"
    if h: "From msg = u" "Content msg = m" "u \<noteq> agentID cfg" for msg
  proof -
    have "handleIncomingMessage U w cfg msg st =
            (case sendTelexMessage w cfg u (Reply (incoming_agentReply U w st1 msg)) of
               Some err \<Rightarrow>
                 ((500, JSON_TelexResponse \<lparr>Status = ''error'', Message = ''Failed to send response''\<rparr>), st1)
             | None \<Rightarrow>
                 ((200, JSON_TelexResponse \<lparr>Status = ''success'', Message = ''Message processed''\<rparr>), st1))"
      unfolding st1_def using h by (simp add: handleIncomingMessage_def Let_def)
    moreover have "Reply (incoming_agentReply U w st1 msg) =
        (case callGroqAPI w prompt of Inl err \<Rightarrow> apology | Inr groqResp \<Rightarrow> groqResp)"
      using i [OF h] by (simp split: sum.splits)
    ultimately show ?thesis by (simp only:)
  qed
  have k: "handleTelexWebhook U w cfg (''Bearer '' @ telexAPIKey cfg) (Inr webhook) st =
              handleIncomingMessage U w cfg (Message_wh webhook) st"
    if "Event webhook = ''message.received'' \<or> Event webhook = ''message''" for webhook
    using that by (simp add: handleTelexWebhook_def)
  from i j have ij: "\<forall>msg. From msg = u \<and> Content msg = m \<and> u \<noteq> agentID cfg \<longrightarrow>
            snd (handleIncomingMessage U w cfg msg st) = st1
          \<and> incoming_agentReply U w st1 msg =
              (case callGroqAPI w prompt of
                 Inl err \<Rightarrow> \<lparr>Reply = apology, Intent = [], Entities = Map.empty, Confidence = 0\<rparr>
               | Inr groqResp \<Rightarrow>
                   \<lparr>Reply = groqResp, Intent = extractIntent U m,
                    Entities = extractEntities U m, Confidence = 0.90\<rparr>)
          \<and> handleIncomingMessage U w cfg msg st =
              (case sendTelexMessage w cfg u
                      (case callGroqAPI w prompt of Inl err \<Rightarrow> apology | Inr groqResp \<Rightarrow> groqResp) of
                 Some err \<Rightarrow>
                   ((500, JSON_TelexResponse \<lparr>Status = ''error'', Message = ''Failed to send response''\<rparr>), st1)
               | None \<Rightarrow>
                   ((200, JSON_TelexResponse \<lparr>Status = ''success'', Message = ''Message processed''\<rparr>), st1))"
    by (intro allI impI conjI) (elim conjE, simp_all)
  from k have kk: "\<forall>webhook. Event webhook = ''message.received'' \<or> Event webhook = ''message'' \<longrightarrow>
            handleTelexWebhook U w cfg (''Bearer '' @ telexAPIKey cfg) (Inr webhook) st =
              handleIncomingMessage U w cfg (Message_wh webhook) st"
    by (intro allI impI)
  from r have rr: "length hist < 2 ^ 63 - 1 \<longrightarrow>
            sint (MessageCount c) = int (length (entries_of u hist)) + 1
          \<and> Contains prompt (''This is message #'' @ format_d (MessageCount c) @ '' in the conversation. '')
          \<and> (extractTopics U (traversal w) m \<noteq> [] \<longrightarrow>
               Contains prompt (''Previous topics discussed: '' @ Join (Topics c) '', '' @ ''. ''))"
    by (rule impI)
  show ?thesis
    by (rule conjI [OF l conjI [OF inc conjI [OF sub conjI [OF rr conjI [OF g conjI [OF d conjI [OF ij kk]]]]]]])
qed

lemma format_d_2: "format_d 2 = ''2''"
  by code_simp

lemma sendTelexMessage_world_echo: "sendTelexMessage world_echo cfg toUserID content = None"
  by (simp add: sendTelexMessage_def world_echo_def telex_up_def)

theorem prompt_built_after_update_witness:
  "length [(keywords_tbl, 5 :: nat, ''demo_user_001'', ''How do I code in Python'')] < 2 ^ 63 - 1
   \<and> lookup (updateConversationContext sample_tables (traversal world_echo) (clock world_echo)
                ''demo_user_001'' ''help with go''
                (run_updates sample_tables [(keywords_tbl, 5, ''demo_user_001'', ''How do I code in Python'')] init_state))
        ''demo_user_001'' =
       Some \<lparr>UserID = ''demo_user_001'', LastMessage = ''help with go'', MessageCount = 2,
             Topics = [''programming'', ''tutorial'', ''support''], Timestamp = 1\<rparr>
   \<and> Contains (buildContextPrompt
         (Some \<lparr>UserID = ''demo_user_001'', LastMessage = ''help with go'', MessageCount = 2,
             Topics = [''programming'', ''tutorial'', ''support''], Timestamp = 1\<rparr>) ''help with go'')
        ''This is message #2 in the conversation. ''
   \<and> handleTelexWebhook sample_tables world_echo demo_config ''Bearer test_key_123''
        (Inr \<lparr>Event = ''message'',
              Message_wh = \<lparr>ID = ''msg_002'', From = ''demo_user_001'', To = ''ai-agent-001'',
                             Content = ''help with go'', Timestamp_msg = 0, Type = ''text''\<rparr>,
              User = \<lparr>ID_user = [], Username = [], Name = []\<rparr>\<rparr>)
        (run_updates sample_tables [(keywords_tbl, 5, ''demo_user_001'', ''How do I code in Python'')] init_state) =
       ((200, JSON_TelexResponse \<lparr>Status = ''success'', Message = ''Message processed''\<rparr>),
        updateConversationContext sample_tables (traversal world_echo) (clock world_echo)
          ''demo_user_001'' ''help with go''
          (run_updates sample_tables [(keywords_tbl, 5, ''demo_user_001'', ''How do I code in Python'')] init_state))"
proof -
  let ?hist = "[(keywords_tbl, 5 :: nat, ''demo_user_001'', ''How do I code in Python'')]"
  let ?msg = "\<lparr>ID = ''msg_002'', From = ''demo_user_001'', To = ''ai-agent-001'',
                Content = ''help with go'', Timestamp_msg = 0, Type = ''text''\<rparr>"
  let ?wh = "\<lparr>Event = ''message'', Message_wh = ?msg,
               User = \<lparr>ID_user = [], Username = [], Name = []\<rparr>\<rparr>"
  let ?c = "\<lparr>UserID = ''demo_user_001'', LastMessage = ''help with go'', MessageCount = 2,
             Topics = [''programming'', ''tutorial'', ''support''], Timestamp = 1\<rparr>"
  have b: "length ?hist < 2 ^ 63 - 1" by simp
  have e: "entries_of ''demo_user_001'' ?hist = ?hist"
    by (simp add: entries_of_def)
  have t: "dedup_first_seen (tags_of sample_tables ?hist @ extractTopics sample_tables keywords_tbl ''help with go'')
             = [''programming'', ''tutorial'', ''support'']"
    by code_simp
  note th = prompt_built_after_update [where U = sample_tables and hist = ?hist and w = world_echo
      and u = "''demo_user_001''" and m = "''help with go''"]
  have l: "lookup (updateConversationContext sample_tables (traversal world_echo) (clock world_echo)
                ''demo_user_001'' ''help with go'' (run_updates sample_tables ?hist init_state)) ''demo_user_001''
             = Some ?c"
    using th [THEN conjunct1] by (simp add: e t world_echo_def)
  have "Contains (buildContextPrompt (Some ?c) ''help with go'')
          (''This is message #'' @ format_d (MessageCount ?c) @ '' in the conversation. '')"
    using th [THEN conjunct2, THEN conjunct2, THEN conjunct2, THEN conjunct1, rule_format, OF b,
              THEN conjunct2, THEN conjunct1]
    by (simp add: e t world_echo_def)
  then have a: "Contains (buildContextPrompt (Some ?c) ''help with go'')
                  ''This is message #2 in the conversation. ''"
    by (simp add: format_d_2)
  have key: "''Bearer '' @ telexAPIKey demo_config = ''Bearer test_key_123''"
    by (simp add: demo_config_def)
  have ev: "Event ?wh = ''message.received'' \<or> Event ?wh = ''message''" by simp
  have hm: "From ?msg = ''demo_user_001'' \<and> Content ?msg = ''help with go''
              \<and> ''demo_user_001'' \<noteq> agentID demo_config"
    by (simp add: demo_config_def)
  note thc = prompt_built_after_update [where U = sample_tables and hist = ?hist and w = world_echo
      and u = "''demo_user_001''" and m = "''help with go''" and cfg = demo_config]
  note dispatch = thc [THEN conjunct2, THEN conjunct2, THEN conjunct2, THEN conjunct2,
      THEN conjunct2, THEN conjunct2, THEN conjunct2, rule_format, OF ev]
  note incoming = thc [THEN conjunct2, THEN conjunct2, THEN conjunct2, THEN conjunct2,
      THEN conjunct2, THEN conjunct2, THEN conjunct1, rule_format, OF hm,
      THEN conjunct2, THEN conjunct2]
  have wh: "handleTelexWebhook sample_tables world_echo demo_config ''Bearer test_key_123'' (Inr ?wh)
        (run_updates sample_tables ?hist init_state) =
       ((200, JSON_TelexResponse \<lparr>Status = ''success'', Message = ''Message processed''\<rparr>),
        updateConversationContext sample_tables (traversal world_echo) (clock world_echo)
          ''demo_user_001'' ''help with go'' (run_updates sample_tables ?hist init_state))"
    using dispatch incoming unfolding key
    by (simp add: sendTelexMessage_world_echo)
  show ?thesis
    by (rule conjI [OF b conjI [OF l conjI [OF a wh]]])
qed

end
